theory Spec2Isabelle
  imports Main "HOL-Library.Sublist" "HOL-Library.Char_ord" "HOL-Library.List_Lexorder" "HOL-Library.AList"
begin

section \<open>Strings and paths\<close>

text \<open>
  Python strings are modelled as \<^typ>\<open>string\<close> (8-bit characters). Paths are the strings
  that \<^verbatim>\<open>str(Path(...))\<close> yields: components separated by single forward slashes, no
  trailing slash. \<^verbatim>\<open>Path.parent\<close>, \<^verbatim>\<open>Path.name\<close> and the \<^verbatim>\<open>/\<close> operator are
  given on such strings; \<^verbatim>\<open>os.path.basename\<close> is the one of \<^verbatim>\<open>posixpath\<close>
  (everything after the last forward slash). \<^verbatim>\<open>str.lower\<close> is given on the ASCII letters.
\<close>

definition basename :: "string \<Rightarrow> string" where
  "basename p = rev (takeWhile (\<lambda>c. c \<noteq> CHR ''/'') (rev p))"

definition path_name :: "string \<Rightarrow> string" where
  "path_name p = basename p"

definition path_parent :: "string \<Rightarrow> string" where
  "path_parent p =
     (let r = dropWhile (\<lambda>c. c \<noteq> CHR ''/'') (rev p)
      in if r = [] then ''.'' else if tl r = [] then ''/'' else rev (tl r))"

definition path_join :: "string \<Rightarrow> string \<Rightarrow> string" where
  "path_join d n = d @ ''/'' @ n"

definition startswith :: "string \<Rightarrow> string \<Rightarrow> bool" where
  "startswith s p = prefix p s"

definition endswith :: "string \<Rightarrow> string \<Rightarrow> bool" where
  "endswith s p = suffix p s"

definition contains :: "string \<Rightarrow> string \<Rightarrow> bool" where
  \<comment> \<open>\<^verbatim>\<open>p in s\<close> on strings: \<open>p\<close> occurs in \<open>s\<close> as a contiguous substring\<close>
  "contains s p = sublist p s"

definition lower_char :: "char \<Rightarrow> char" where
  "lower_char c = (if CHR ''A'' \<le> c \<and> c \<le> CHR ''Z'' then char_of (of_char c + (32::nat)) else c)"

definition lower :: "string \<Rightarrow> string" where
  "lower s = map lower_char s"

definition is_space :: "char \<Rightarrow> bool" where
  \<comment> \<open>\<^verbatim>\<open>str.isspace\<close> on the code points below 256\<close>
  "is_space c = (c \<in> set [CHR 0x20, CHR 0x09, CHR 0x0A, CHR 0x0B, CHR 0x0C, CHR 0x0D,
                            CHR 0x1C, CHR 0x1D, CHR 0x1E, CHR 0x1F, CHR 0x85, CHR 0xA0])"

definition strip :: "string \<Rightarrow> string" where
  "strip s = rev (dropWhile is_space (rev (dropWhile is_space s)))"

definition is_digit :: "char \<Rightarrow> bool" where
  "is_digit c = (CHR ''0'' \<le> c \<and> c \<le> CHR ''9'')"

definition digit_val :: "char \<Rightarrow> nat" where
  "digit_val c = of_char c - 48"

fun int_digits :: "string \<Rightarrow> nat \<Rightarrow> nat option" where
  "int_digits [] acc = Some acc"
| "int_digits [c] acc = (if is_digit c then Some (10 * acc + digit_val c) else None)"
| "int_digits (c # d # r) acc =
     (if is_digit c then int_digits (d # r) (10 * acc + digit_val c)
      else if c = CHR ''_'' \<and> is_digit d then int_digits (d # r) acc
      else None)"

definition py_int :: "string \<Rightarrow> int option" where
  \<comment> \<open>\<^verbatim>\<open>int(s)\<close> on a string: \<open>None\<close> stands for \<^verbatim>\<open>ValueError\<close>\<close>
  "py_int s =
     (let t = strip s;
          neg = (t \<noteq> [] \<and> hd t = CHR ''-'');
          body = (if t \<noteq> [] \<and> (hd t = CHR ''-'' \<or> hd t = CHR ''+'') then tl t else t)
      in if body \<noteq> [] \<and> is_digit (hd body)
         then map_option (\<lambda>n. if neg then - int n else int n) (int_digits body 0)
         else None)"

definition py_index :: "'a list \<Rightarrow> int \<Rightarrow> 'a option" where
  \<comment> \<open>\<^verbatim>\<open>xs[i]\<close>, where \<open>-1\<close> is the last element; \<open>None\<close> stands for \<^verbatim>\<open>IndexError\<close>\<close>
  "py_index xs i =
     (if 0 \<le> i \<and> i < int (length xs) then Some (xs ! nat i)
      else if - int (length xs) \<le> i \<and> i < 0 then Some (xs ! nat (int (length xs) + i))
      else None)"

function string_of_nat :: "nat \<Rightarrow> string" where
  "string_of_nat n =
     (if n < 10 then [char_of (48 + n)] else string_of_nat (n div 10) @ [char_of (48 + n mod 10)])"
  by pat_completeness auto
termination
  by (relation "measure id") auto

section \<open>Regular expressions\<close>

text \<open>
  The patterns of the normalizer, with the semantics of \<^verbatim>\<open>re\<close>: a backtracking matcher
  that returns, in the order in which \<^verbatim>\<open>re\<close> would try them, the states in which a
  match of the pattern can end. A state is the character before the position, the rest of
  the text and the text of group 1. The first state is the match \<^verbatim>\<open>re\<close> reports. The
  classes \<^verbatim>\<open>\s\<close>, \<^verbatim>\<open>\d\<close> and \<^verbatim>\<open>\w\<close> are those of \<^verbatim>\<open>str\<close> patterns on the code points
  below 256. The body of every starred group of these patterns consumes a character, which
  the matcher requires of an iteration.
\<close>

datatype regex =
    Chars "char \<Rightarrow> bool"
  | WordBoundary
  | Cat regex regex
  | Alt regex regex
  | Opt regex
  | Star regex
  | StarLazy regex
  | Group regex
  | Eps

type_synonym mstate = "char option \<times> string \<times> string option"

definition is_word :: "char \<Rightarrow> bool" where
  "is_word c = ((CHR ''a'' \<le> c \<and> c \<le> CHR ''z'') \<or> (CHR ''A'' \<le> c \<and> c \<le> CHR ''Z'')
                \<or> (CHR ''0'' \<le> c \<and> c \<le> CHR ''9'') \<or> c = CHR ''_''
                \<or> c \<in> set [CHR 0xAA, CHR 0xB2, CHR 0xB3, CHR 0xB5, CHR 0xB9, CHR 0xBA,
                              CHR 0xBC, CHR 0xBD, CHR 0xBE]
                \<or> (CHR 0xC0 \<le> c \<and> c \<noteq> CHR 0xD7 \<and> c \<noteq> CHR 0xF7))"

definition at_word_boundary :: "char option \<Rightarrow> string \<Rightarrow> bool" where
  "at_word_boundary prev s =
     ((case prev of None \<Rightarrow> False | Some c \<Rightarrow> is_word c)
      \<noteq> (case s of [] \<Rightarrow> False | c # cs \<Rightarrow> is_word c))"

fun rmatch :: "regex \<Rightarrow> mstate \<Rightarrow> mstate list" where
  "rmatch Eps (prev, s, g) = [(prev, s, g)]"
| "rmatch (Chars P) (prev, s, g) =
     (case s of [] \<Rightarrow> [] | c # cs \<Rightarrow> if P c then [(Some c, cs, g)] else [])"
| "rmatch WordBoundary (prev, s, g) = (if at_word_boundary prev s then [(prev, s, g)] else [])"
| "rmatch (Cat r1 r2) (prev, s, g) = concat (map (\<lambda>st. rmatch r2 st) (rmatch r1 (prev, s, g)))"
| "rmatch (Alt r1 r2) (prev, s, g) = rmatch r1 (prev, s, g) @ rmatch r2 (prev, s, g)"
| "rmatch (Opt r) (prev, s, g) = rmatch r (prev, s, g) @ [(prev, s, g)]"
| "rmatch (Star r) (prev, s, g) =
     concat (map (\<lambda>(prev', s', g'). if length s' < length s then rmatch (Star r) (prev', s', g') else [])
               (rmatch r (prev, s, g))) @ [(prev, s, g)]"
| "rmatch (StarLazy r) (prev, s, g) =
     (prev, s, g) #
     concat (map (\<lambda>(prev', s', g'). if length s' < length s then rmatch (StarLazy r) (prev', s', g') else [])
               (rmatch r (prev, s, g)))"
| "rmatch (Group r) (prev, s, g) =
     map (\<lambda>(prev', s', g'). (prev', s', Some (take (length s - length s') s))) (rmatch r (prev, s, g))"


fun lit :: "string \<Rightarrow> regex" where
  "lit [] = Eps"
| "lit [c] = Chars (\<lambda>x. x = c)"
| "lit (c # cs) = Cat (Chars (\<lambda>x. x = c)) (lit cs)"

definition Plus :: "regex \<Rightarrow> regex" where
  "Plus r = Cat r (Star r)"

function findall_from :: "regex \<Rightarrow> char option \<Rightarrow> string \<Rightarrow> (string \<times> string option) list" where
  "findall_from r prev s =
     (case rmatch r (prev, s, None) of
        (prev', s', g) # others \<Rightarrow>
          if length s' < length s
          then (take (length s - length s') s, g) # findall_from r prev' s'
          else ([], g) # (case s of [] \<Rightarrow> [] | c # cs \<Rightarrow> findall_from r (Some c) cs)
      | [] \<Rightarrow> (case s of [] \<Rightarrow> [] | c # cs \<Rightarrow> findall_from r (Some c) cs))"
  by pat_completeness auto
termination
  by (relation "measure (\<lambda>(r, prev, s). length s)") auto

definition findall :: "regex \<Rightarrow> string \<Rightarrow> string list" where
  \<comment> \<open>\<^verbatim>\<open>re.findall\<close> for a pattern without a group: the matched texts\<close>
  "findall r s = map fst (findall_from r None s)"

definition findall_group :: "regex \<Rightarrow> string \<Rightarrow> string list" where
  \<comment> \<open>\<^verbatim>\<open>re.findall\<close> for a pattern with one group: the texts of the group\<close>
  "findall_group r s = map (\<lambda>(m, g). case g of None \<Rightarrow> [] | Some t \<Rightarrow> t) (findall_from r None s)"

definition not_brace :: "char \<Rightarrow> bool" where
  "not_brace c = (c \<noteq> CHR ''{'' \<and> c \<noteq> CHR ''}'')"

definition upper_az :: "char \<Rightarrow> bool" where
  "upper_az c = (CHR ''A'' \<le> c \<and> c \<le> CHR ''Z'')"

definition lower_az :: "char \<Rightarrow> bool" where
  "lower_az c = (CHR ''a'' \<le> c \<and> c \<le> CHR ''z'')"

definition fenced_json_pattern :: regex where
  "fenced_json_pattern =
     Cat (lit ''```'') (Cat (Opt (lit ''json'')) (Cat (Star (Chars is_space))
       (Cat (Group (Cat (lit ''{'') (Cat (StarLazy (Chars (\<lambda>c. True))) (lit ''}''))))
         (Cat (Star (Chars is_space)) (lit ''```'')))))"

definition json_pattern :: regex where
  "json_pattern =
     Cat (lit ''{'')
       (Cat (Star (Alt (Chars not_brace)
                       (Cat (lit ''{'') (Cat (Star (Chars not_brace)) (lit ''}'')))))
            (lit ''}''))"

definition entity_patterns :: "regex list" where
  "entity_patterns =
     [Cat WordBoundary (Cat (Chars upper_az) (Cat (Plus (Chars lower_az))
        (Cat (Star (Cat (Plus (Chars is_space)) (Cat (Chars upper_az) (Plus (Chars lower_az)))))
             WordBoundary))),
      Cat (lit ''$'') (Cat (Plus (Chars (\<lambda>c. is_digit c \<or> c = CHR '','')))
        (Cat (Opt (lit ''.'')) (Star (Chars is_digit)))),
      Cat WordBoundary (Cat (Chars is_digit) (Cat (Opt (Chars is_digit))
        (Cat (Chars (\<lambda>c. c = CHR ''/'' \<or> c = CHR ''-''))
          (Cat (Chars is_digit) (Cat (Opt (Chars is_digit))
            (Cat (Chars (\<lambda>c. c = CHR ''/'' \<or> c = CHR ''-''))
              (Cat (Chars is_digit) (Cat (Chars is_digit)
                (Cat (Opt (Cat (Chars is_digit) (Opt (Chars is_digit)))) WordBoundary))))))))),
      Cat WordBoundary (Cat (Chars upper_az) (Cat (Chars upper_az)
        (Cat (Star (Chars upper_az)) WordBoundary)))]"


section \<open>JSON values and \<^verbatim>\<open>json.loads\<close>\<close>

text \<open>
  A JSON value as \<^verbatim>\<open>json.loads\<close> returns it: an object is the list of its items in
  insertion order, where a repeated key keeps its place and takes the later value; a
  number keeps its text. The decoder follows \<^verbatim>\<open>json.decoder\<close>: strict strings, no trailing
  comma, \<^verbatim>\<open>NaN\<close> and \<^verbatim>\<open>Infinity\<close> accepted. Each call reads a character before it
  calls again, so the fuel, the length of the text, is never used up. A \<^verbatim>\<open>\uXXXX\<close> escape
  is read as the character with that code modulo 256. The recursion limit of the
  interpreter is not modelled.
\<close>

datatype json =
    JNull
  | JBool bool
  | JNum string
  | JStr string
  | JArr "json list"
  | JObj "(string \<times> json) list"

definition is_json_ws :: "char \<Rightarrow> bool" where
  "is_json_ws c = (c = CHR 0x20 \<or> c = CHR 0x09 \<or> c = CHR 0x0A \<or> c = CHR 0x0D)"

definition skip_ws :: "string \<Rightarrow> string" where
  "skip_ws s = dropWhile is_json_ws s"

definition hex_val :: "char \<Rightarrow> nat option" where
  "hex_val c =
     (if CHR ''0'' \<le> c \<and> c \<le> CHR ''9'' then Some (of_char c - 48)
      else if CHR ''a'' \<le> c \<and> c \<le> CHR ''f'' then Some (of_char c - 87)
      else if CHR ''A'' \<le> c \<and> c \<le> CHR ''F'' then Some (of_char c - 55)
      else None)"

definition hex4 :: "char \<Rightarrow> char \<Rightarrow> char \<Rightarrow> char \<Rightarrow> nat option" where
  "hex4 a b c d =
     (case (hex_val a, hex_val b, hex_val c, hex_val d) of
        (Some x, Some y, Some z, Some u) \<Rightarrow> Some (4096 * x + 256 * y + 16 * z + u)
      | _ \<Rightarrow> None)"

definition unescape :: "char \<Rightarrow> char option" where
  "unescape e =
     (if e = CHR 0x22 \<or> e = CHR 0x5C \<or> e = CHR ''/'' then Some e
      else if e = CHR ''b'' then Some (CHR 0x08)
      else if e = CHR ''f'' then Some (CHR 0x0C)
      else if e = CHR ''n'' then Some (CHR 0x0A)
      else if e = CHR ''r'' then Some (CHR 0x0D)
      else if e = CHR ''t'' then Some (CHR 0x09)
      else None)"

fun scan_string :: "string \<Rightarrow> string \<Rightarrow> (string \<times> string) option" where
  "scan_string [] acc = None"
| "scan_string (c # cs) acc =
     (if c = CHR 0x22 then Some (rev acc, cs)
      else if c = CHR 0x5C then
        (case cs of
           [] \<Rightarrow> None
         | e # es \<Rightarrow>
             if e = CHR ''u'' then
               (case es of
                  h1 # h2 # h3 # h4 # r \<Rightarrow>
                    (case hex4 h1 h2 h3 h4 of
                       Some n \<Rightarrow> scan_string r (char_of n # acc)
                     | None \<Rightarrow> None)
                | _ \<Rightarrow> None)
             else (case unescape e of Some x \<Rightarrow> scan_string es (x # acc) | None \<Rightarrow> None))
      else if (of_char c :: nat) < 32 then None
      else scan_string cs (c # acc))"

definition number_pattern :: regex where
  "number_pattern =
     Cat (Opt (lit ''-''))
       (Cat (Alt (lit ''0'') (Cat (Chars (\<lambda>c. CHR ''1'' \<le> c \<and> c \<le> CHR ''9'')) (Star (Chars is_digit))))
         (Cat (Opt (Cat (lit ''.'') (Plus (Chars is_digit))))
              (Opt (Cat (Chars (\<lambda>c. c = CHR ''e'' \<or> c = CHR ''E''))
                     (Cat (Opt (Chars (\<lambda>c. c = CHR ''-'' \<or> c = CHR ''+''))) (Plus (Chars is_digit)))))))"

definition scan_number :: "string \<Rightarrow> (string \<times> string) option" where
  "scan_number s =
     (case rmatch number_pattern (None, s, None) of
        (prev', s', g) # others \<Rightarrow> Some (take (length s - length s') s, s')
      | [] \<Rightarrow> None)"

fun scan_once :: "nat \<Rightarrow> string \<Rightarrow> (json \<times> string) option"
  and scan_members :: "nat \<Rightarrow> string \<Rightarrow> (string \<times> json) list \<Rightarrow> ((string \<times> json) list \<times> string) option"
  and scan_elements :: "nat \<Rightarrow> string \<Rightarrow> json list \<Rightarrow> (json list \<times> string) option"
where
  "scan_once 0 s = None"
| "scan_once (Suc n) s =
     (case s of
        [] \<Rightarrow> None
      | c # cs \<Rightarrow>
          if c = CHR 0x22 then map_option (\<lambda>(t, r). (JStr t, r)) (scan_string cs [])
          else if c = CHR ''{'' then
            (case skip_ws cs of
               [] \<Rightarrow> None
             | d # ds \<Rightarrow>
                 if d = CHR ''}'' then Some (JObj [], ds)
                 else if d = CHR 0x22 then map_option (\<lambda>(kvs, r). (JObj kvs, r)) (scan_members n ds [])
                 else None)
          else if c = CHR ''['' then
            (case skip_ws cs of
               [] \<Rightarrow> None
             | d # ds \<Rightarrow>
                 if d = CHR '']'' then Some (JArr [], ds)
                 else map_option (\<lambda>(vs, r). (JArr vs, r)) (scan_elements n (d # ds) []))
          else if prefix ''null'' s then Some (JNull, drop 4 s)
          else if prefix ''true'' s then Some (JBool True, drop 4 s)
          else if prefix ''false'' s then Some (JBool False, drop 5 s)
          else
            (case scan_number s of
               Some (t, r) \<Rightarrow> Some (JNum t, r)
             | None \<Rightarrow>
                 if prefix ''NaN'' s then Some (JNum ''NaN'', drop 3 s)
                 else if prefix ''Infinity'' s then Some (JNum ''Infinity'', drop 8 s)
                 else if prefix ''-Infinity'' s then Some (JNum ''-Infinity'', drop 9 s)
                 else None))"
| "scan_members 0 s acc = None"
| "scan_members (Suc n) s acc =
     (case scan_string s [] of
        None \<Rightarrow> None
      | Some (key, r) \<Rightarrow>
          (case skip_ws r of
             [] \<Rightarrow> None
           | c # cs \<Rightarrow>
               if c \<noteq> CHR '':'' then None
               else
                 (case scan_once n (skip_ws cs) of
                    None \<Rightarrow> None
                  | Some (v, r') \<Rightarrow>
                      (case skip_ws r' of
                         [] \<Rightarrow> None
                       | d # ds \<Rightarrow>
                           if d = CHR ''}'' then Some (AList.update key v acc, ds)
                           else if d = CHR '','' then
                             (case skip_ws ds of
                                [] \<Rightarrow> None
                              | q # qs \<Rightarrow>
                                  if q = CHR 0x22 then scan_members n qs (AList.update key v acc)
                                  else None)
                           else None))))"
| "scan_elements 0 s acc = None"
| "scan_elements (Suc n) s acc =
     (case scan_once n s of
        None \<Rightarrow> None
      | Some (v, r) \<Rightarrow>
          (case skip_ws r of
             [] \<Rightarrow> None
           | d # ds \<Rightarrow>
               if d = CHR '']'' then Some (acc @ [v], ds)
               else if d = CHR '','' then scan_elements n (skip_ws ds) (acc @ [v])
               else None))"

definition json_loads :: "string \<Rightarrow> json option" where
  \<comment> \<open>\<open>None\<close> stands for \<^verbatim>\<open>json.JSONDecodeError\<close>\<close>
  "json_loads s =
     (case scan_once (Suc (length s)) (skip_ws s) of
        None \<Rightarrow> None
      | Some (v, r) \<Rightarrow> if skip_ws r = [] then Some v else None)"


definition type_name :: "json \<Rightarrow> string" where
  \<comment> \<open>\<^verbatim>\<open>type(v).__name__\<close>\<close>
  "type_name v =
     (case v of
        JNull \<Rightarrow> ''NoneType''
      | JBool b \<Rightarrow> ''bool''
      | JNum t \<Rightarrow> (if set t \<subseteq> set ''-0123456789'' then ''int'' else ''float'')
      | JStr t \<Rightarrow> ''str''
      | JArr vs \<Rightarrow> ''list''
      | JObj kvs \<Rightarrow> ''dict'')"

definition quoted :: "string \<Rightarrow> string" where
  \<comment> \<open>the text between single quotes\<close>
  "quoted s = [CHR 0x27] @ s @ [CHR 0x27]"

subsection \<open>\<^verbatim>\<open>json.dumps\<close> of a list of strings\<close>

definition hex_digit :: "nat \<Rightarrow> char" where
  "hex_digit k = (if k < 10 then char_of (48 + k) else char_of (87 + k))"

definition escape_char :: "char \<Rightarrow> string" where
  \<comment> \<open>\<^verbatim>\<open>ensure_ascii=True\<close>: the quote, the backslash and whatever is outside \<^verbatim>\<open>' '..'~'\<close>\<close>
  "escape_char c =
     (if c = CHR 0x22 then [CHR 0x5C, CHR 0x22]
      else if c = CHR 0x5C then [CHR 0x5C, CHR 0x5C]
      else if c = CHR 0x0A then [CHR 0x5C, CHR ''n'']
      else if c = CHR 0x0D then [CHR 0x5C, CHR ''r'']
      else if c = CHR 0x09 then [CHR 0x5C, CHR ''t'']
      else if c = CHR 0x08 then [CHR 0x5C, CHR ''b'']
      else if c = CHR 0x0C then [CHR 0x5C, CHR ''f'']
      else if (of_char c :: nat) < 32 \<or> (of_char c :: nat) > 126
        then [CHR 0x5C, CHR ''u'', CHR ''0'', CHR ''0'',
              hex_digit (of_char c div 16), hex_digit (of_char c mod 16)]
      else [c])"

definition dumps_string :: "string \<Rightarrow> string" where
  "dumps_string s = [CHR 0x22] @ concat (map escape_char s) @ [CHR 0x22]"

fun dumps_items :: "string list \<Rightarrow> string" where
  "dumps_items [] = []"
| "dumps_items [x] = dumps_string x"
| "dumps_items (x # y # ys) = dumps_string x @ '', '' @ dumps_items (y # ys)"

definition json_dumps_strings :: "string list \<Rightarrow> string" where
  "json_dumps_strings xs = ''['' @ dumps_items xs @ '']''"

section \<open>Exceptions, messages and the world\<close>

datatype exception =
    OSError string
  | PipelineError string
  | TypeError string
  | AttributeError string
  | ValueError string
  | IndexError string
  | EOFError string
  | UnboundLocalError string

fun str_exc :: "exception \<Rightarrow> string" where
  "str_exc (OSError m) = m"
| "str_exc (PipelineError m) = m"
| "str_exc (TypeError m) = m"
| "str_exc (AttributeError m) = m"
| "str_exc (ValueError m) = m"
| "str_exc (IndexError m) = m"
| "str_exc (EOFError m) = m"
| "str_exc (UnboundLocalError m) = m"

datatype level = INFO | WARNING | ERROR | PRINT

text \<open>
  A message is what \<^verbatim>\<open>self.logger\<close> or \<^verbatim>\<open>print\<close> emits: the level and the text (the
  pictograph that opens a printed line is left out).
\<close>

datatype message = Msg level string

text \<open>
  A directory entry: a regular file with what \<^verbatim>\<open>stat()\<close> reports for it, already
  formatted as the listing formats it (size, modification time), or \<open>None\<close> when
  \<^verbatim>\<open>stat()\<close> raises; or a directory.
\<close>

datatype fentry = RegularFile "(string \<times> string) option" | Directory

text \<open>
  The persisted cache file \<^verbatim>\<open>processed_files.json\<close>: absent, present but not to be opened,
  or present with its text.
\<close>

datatype cache_file_state = NoCacheFile | Unreadable exception | CacheText string

text \<open>The primitive file-system calls the code issues on document files, in order.\<close>

datatype fs_op =
    Rename string string
  | ReadBytes string
  | WriteBytes string
  | Unlink string
  | Rmtree string
  | Mkdir string

text \<open>
  A record of the knowledge base's document table \<^verbatim>\<open>kv_store_full_docs.json\<close>, as far
  as the code looks into it: not a dict, a dict without \<^verbatim>\<open>file_path\<close>, or a dict whose
  \<^verbatim>\<open>file_path\<close> is a string or something else.
\<close>

datatype doc_info = NotADict | NoFilePath | FilePath string | FilePathNotStr

datatype full_docs_state = NoFullDocs | MalformedFullDocs | FullDocs "(string \<times> doc_info) list"

record world =
  processed_files_cache :: "string list"
    \<comment> \<open>\<^verbatim>\<open>self._processed_files_cache\<close>, a set: a list in iteration order, read through \<open>set\<close>\<close>
  files :: "(string \<times> fentry) list"
    \<comment> \<open>every existing path with its entry, in directory-listing order\<close>
  cache_dir :: "cache_file_state option"
    \<comment> \<open>\<open>None\<close>: \<^verbatim>\<open>CACHE_DIR\<close> does not exist; otherwise the state of the cache file in it\<close>
  lightrag_storage :: "full_docs_state option"
    \<comment> \<open>\<open>None\<close>: \<^verbatim>\<open>LIGHTRAG_STORAGE_DIR\<close> does not exist; otherwise the document table in it\<close>
  pipeline_calls :: "string list"
    \<comment> \<open>the arguments of the calls of \<^verbatim>\<open>process_document_complete\<close> so far\<close>
  fs_ops :: "fs_op list"
  messages :: "message list"

text \<open>
  The configuration and the behaviour of the collaborators, which the code does not
  decide: whether the pipeline raises on a file and what it does to the knowledge base,
  whether a file-system call raises, and what the user types at a prompt. The methods are
  those of an initialized manager and interface.
\<close>

record env =
  PENDING_DIR :: string
  PROCESSED_DIR :: string
  CACHE_DIR :: string
  LIGHTRAG_STORAGE_DIR :: string
  pipeline :: "string \<Rightarrow> full_docs_state option \<Rightarrow> exception option \<times> full_docs_state option"
  rename_error :: "string \<Rightarrow> string \<Rightarrow> exception option"
  cache_write_error :: "exception option"
  rmtree_error :: "exception option"
  mkdir_error :: "exception option"
  unlink_error :: "string \<Rightarrow> exception option"
  read_error :: "string \<Rightarrow> exception option"
  write_error :: "string \<Rightarrow> exception option"
  fresh_stat :: "(string \<times> string) option"
  user_input :: "exception + string"

definition emit :: "level \<Rightarrow> string \<Rightarrow> world \<Rightarrow> world" where
  "emit l m w = w\<lparr>messages := messages w @ [Msg l m]\<rparr>"

definition path_exists :: "world \<Rightarrow> string \<Rightarrow> bool" where
  "path_exists w p = (p \<in> set (map fst (files w)))"

definition is_file :: "world \<Rightarrow> string \<Rightarrow> bool" where
  "is_file w p = (case map_of (files w) p of Some (RegularFile st) \<Rightarrow> True | _ \<Rightarrow> False)"

definition iterdir :: "world \<Rightarrow> string \<Rightarrow> string list" where
  \<comment> \<open>the paths directly inside directory \<open>d\<close>; also what \<^verbatim>\<open>d.glob("*")\<close> lists\<close>
  "iterdir w d = filter (\<lambda>p. path_parent p = d) (map fst (files w))"

definition rename_entry :: "string \<Rightarrow> string \<Rightarrow> (string \<times> fentry) list \<Rightarrow> (string \<times> fentry) list" where
  \<comment> \<open>the entry at \<open>src\<close> moves to \<open>dst\<close> and replaces what was there\<close>
  "rename_entry src dst fs =
     map (\<lambda>(p, e). if p = src then (dst, e) else (p, e))
       (filter (\<lambda>(p, e). p \<noteq> dst \<or> src = dst) fs)"

definition rename :: "env \<Rightarrow> string \<Rightarrow> string \<Rightarrow> world \<Rightarrow> exception option \<times> world" where
  \<comment> \<open>\<^verbatim>\<open>src.rename(dst)\<close>: raises, or moves the entry\<close>
  "rename E src dst w =
     (case (if path_exists w src then rename_error E src dst
            else Some (OSError ''No such file or directory'')) of
        Some e \<Rightarrow> (Some e, w)
      | None \<Rightarrow>
          (None, w\<lparr>files := rename_entry src dst (files w),
                   fs_ops := fs_ops w @ [Rename src dst]\<rparr>))"

section \<open>The idempotency cache\<close>

definition as_str :: "json \<Rightarrow> string option" where
  "as_str v = (case v of JStr s \<Rightarrow> Some s | _ \<Rightarrow> None)"

definition unhashable :: "json \<Rightarrow> bool" where
  "unhashable v = (case v of JArr vs \<Rightarrow> True | JObj kvs \<Rightarrow> True | _ \<Rightarrow> False)"

definition py_set_of_json :: "json \<Rightarrow> exception + string list" where
  \<comment> \<open>\<^verbatim>\<open>set(v)\<close> for a decoded value: the members of an array, the keys of an object, the
      characters of a string. The cache file is an array of strings; members of an array
      that are numbers, booleans or null equal no path and are left out.\<close>
  "py_set_of_json v =
     (case v of
        JArr items \<Rightarrow>
          (case filter unhashable items of
             [] \<Rightarrow> Inr (remdups (List.map_filter as_str items))
           | u # us \<Rightarrow> Inl (TypeError (''unhashable type: '' @ quoted (type_name u))))
      | JObj kvs \<Rightarrow> Inr (map fst kvs)
      | JStr s \<Rightarrow> Inr (remdups (map (\<lambda>c. [c]) s))
      | _ \<Rightarrow> Inl (TypeError (quoted (type_name v) @ '' object is not iterable'')))"

definition load_processed_files_cache :: "world \<Rightarrow> world" where
  "load_processed_files_cache w =
     (case cache_dir w of
        Some (CacheText t) \<Rightarrow>
          (case (case json_loads t of
                   None \<Rightarrow> Inl (ValueError ''Expecting value'')
                 | Some v \<Rightarrow> py_set_of_json v) of
             Inr xs \<Rightarrow> w\<lparr>processed_files_cache := xs\<rparr>
           | Inl e \<Rightarrow>
               (emit WARNING (''Could not load processed files cache: '' @ str_exc e) w)
                 \<lparr>processed_files_cache := []\<rparr>)
      | Some (Unreadable e) \<Rightarrow>
          (emit WARNING (''Could not load processed files cache: '' @ str_exc e) w)
            \<lparr>processed_files_cache := []\<rparr>
      | _ \<Rightarrow> w\<lparr>processed_files_cache := []\<rparr>)"

definition save_processed_files_cache :: "env \<Rightarrow> world \<Rightarrow> world" where
  "save_processed_files_cache E w =
     (case cache_dir w of
        None \<Rightarrow> emit WARNING (''Could not save processed files cache: No such file or directory'') w
      | Some st \<Rightarrow>
          (case cache_write_error E of
             Some e \<Rightarrow> emit WARNING (''Could not save processed files cache: '' @ str_exc e) w
           | None \<Rightarrow> w\<lparr>cache_dir := Some (CacheText (json_dumps_strings (processed_files_cache w)))\<rparr>))"

definition cache_add :: "string \<Rightarrow> string list \<Rightarrow> string list" where
  \<comment> \<open>\<^verbatim>\<open>set.add\<close>\<close>
  "cache_add x xs = (if x \<in> set xs then xs else xs @ [x])"

section \<open>The processing orchestrator\<close>

definition mark_file_as_processed :: "env \<Rightarrow> string \<Rightarrow> world \<Rightarrow> (exception + string) \<times> world" where
  "mark_file_as_processed E file_path w =
     (if path_exists w file_path \<and> path_parent file_path = PENDING_DIR E then
        (let destination = path_join (PROCESSED_DIR E) (path_name file_path)
         in case rename E file_path destination w of
              (Some e, w') \<Rightarrow> (Inl e, w')
            | (None, w') \<Rightarrow> (Inr destination, w'))
      else (Inr file_path, w))"

definition process_document_complete :: "env \<Rightarrow> string \<Rightarrow> world \<Rightarrow> exception option \<times> world" where
  \<comment> \<open>the external pipeline: a call is recorded, the knowledge base changes as the pipeline decides\<close>
  "process_document_complete E file_path w =
     (case pipeline E file_path (lightrag_storage w) of
        (r, kb) \<Rightarrow> (r, w\<lparr>lightrag_storage := kb, pipeline_calls := pipeline_calls w @ [file_path]\<rparr>))"

definition process_document :: "env \<Rightarrow> string \<Rightarrow> bool \<Rightarrow> world \<Rightarrow> bool \<times> world" where
  "process_document E file_path force_reprocess w =
     (if \<not> path_exists w file_path then
        (False, emit ERROR (''File not found: '' @ file_path) w)
      else if \<not> force_reprocess \<and> file_path \<in> set (processed_files_cache w) then
        (False, emit INFO (''File already processed, skipping: '' @ file_path) w)
      else
        (case process_document_complete E file_path
                (emit INFO (''Processing document: '' @ file_path) w) of
           (Some e, w1) \<Rightarrow>
             (False, emit ERROR (''Failed to process '' @ file_path @ '': '' @ str_exc e) w1)
         | (None, w1) \<Rightarrow>
             (let w2 = w1\<lparr>processed_files_cache := cache_add file_path (processed_files_cache w1)\<rparr>;
                  w3 = save_processed_files_cache E w2
              in case (if path_parent file_path = PENDING_DIR E
                       then mark_file_as_processed E file_path w3
                       else (Inr file_path, w3)) of
                   (Inl e, w4) \<Rightarrow>
                     (False, emit ERROR (''Failed to process '' @ file_path @ '': '' @ str_exc e) w4)
                 | (Inr d, w4) \<Rightarrow>
                     (True, emit INFO (''Successfully processed: '' @ file_path) w4))))"

record results =
  processed :: nat
  skipped :: nat
  failed :: nat

definition repr_results :: "results \<Rightarrow> string" where
  \<comment> \<open>the \<^verbatim>\<open>repr\<close> of the dictionary of counts\<close>
  "repr_results r =
     ''{'' @ quoted ''processed'' @ '': '' @ string_of_nat (processed r)
     @ '', '' @ quoted ''skipped'' @ '': '' @ string_of_nat (skipped r)
     @ '', '' @ quoted ''failed'' @ '': '' @ string_of_nat (failed r) @ ''}''"

fun process_pending_loop :: "env \<Rightarrow> bool \<Rightarrow> string list \<Rightarrow> results \<Rightarrow> world \<Rightarrow> results \<times> world" where
  "process_pending_loop E force_reprocess [] r w = (r, w)"
| "process_pending_loop E force_reprocess (file_path # rest) r w =
     (if is_file w file_path then
        (case process_document E file_path force_reprocess w of
           (success, w') \<Rightarrow>
             process_pending_loop E force_reprocess rest
               (if success then r\<lparr>processed := processed r + 1\<rparr>
                else if file_path \<in> set (processed_files_cache w') then r\<lparr>skipped := skipped r + 1\<rparr>
                else r\<lparr>failed := failed r + 1\<rparr>) w')
      else process_pending_loop E force_reprocess rest r w)"

definition process_pending_documents :: "env \<Rightarrow> bool \<Rightarrow> world \<Rightarrow> results \<times> world" where
  "process_pending_documents E force_reprocess w =
     (let pending_files = iterdir w (PENDING_DIR E)
      in if pending_files = [] then
           (\<lparr>processed = 0, skipped = 0, failed = 0\<rparr>, emit INFO ''No pending documents found'' w)
         else
           (case process_pending_loop E force_reprocess pending_files
                   \<lparr>processed = 0, skipped = 0, failed = 0\<rparr> w of
              (r, w') \<Rightarrow> (r, emit INFO (''Processing complete: '' @ repr_results r) w')))"

section \<open>The document registry\<close>

definition set_add :: "'a \<Rightarrow> 'a list \<Rightarrow> 'a list" where
  "set_add x xs = (if x \<in> set xs then xs else xs @ [x])"

record doc_details =
  in_cache :: bool
  in_processed_dir :: bool
  in_knowledge_base :: bool
  file_size :: "string option"
  process_date :: "string option"

fun cache_docs_loop :: "string list \<Rightarrow> string list \<Rightarrow> string list" where
  "cache_docs_loop [] cache_docs = cache_docs"
| "cache_docs_loop (cached_file # rest) cache_docs =
     (if cached_file \<noteq> [] then cache_docs_loop rest (set_add (basename cached_file) cache_docs)
      else cache_docs_loop rest cache_docs)"

fun processed_docs_loop ::
  "world \<Rightarrow> string list \<Rightarrow> (string \<times> string \<times> string) list \<Rightarrow> (string \<times> string \<times> string) list" where
  "processed_docs_loop w [] processed_docs = processed_docs"
| "processed_docs_loop w (file_path # rest) processed_docs =
     (case map_of (files w) file_path of
        Some (RegularFile st) \<Rightarrow>
          (if \<not> startswith (path_name file_path) ''.'' then
             processed_docs_loop w rest
               (AList.update (path_name file_path)
                  (case st of Some sm \<Rightarrow> sm | None \<Rightarrow> (''Unknown'', ''Unknown'')) processed_docs)
           else processed_docs_loop w rest processed_docs)
      | _ \<Rightarrow> processed_docs_loop w rest processed_docs)"

text \<open>
  The loop over the records of the document table. It runs inside a \<^verbatim>\<open>try\<close> whose
  handler is \<^verbatim>\<open>except: pass\<close>: \<^verbatim>\<open>os.path.basename\<close> raises \<^verbatim>\<open>TypeError\<close> on a
  \<^verbatim>\<open>file_path\<close> that is not a string, which ends the loop with the names added so far.
\<close>

fun kb_docs_loop :: "(string \<times> doc_info) list \<Rightarrow> string list \<Rightarrow> string list" where
  "kb_docs_loop [] kb_docs = kb_docs"
| "kb_docs_loop ((doc_id, FilePath p) # rest) kb_docs = kb_docs_loop rest (set_add (basename p) kb_docs)"
| "kb_docs_loop ((doc_id, FilePathNotStr) # rest) kb_docs = kb_docs"
| "kb_docs_loop ((doc_id, d) # rest) kb_docs = kb_docs_loop rest kb_docs"

definition kb_docs_of :: "full_docs_state option \<Rightarrow> string list" where
  "kb_docs_of st = (case st of Some (FullDocs docs_data) \<Rightarrow> kb_docs_loop docs_data [] | _ \<Rightarrow> [])"

fun docs_info_loop ::
  "string list \<Rightarrow> (string \<times> string \<times> string) list \<Rightarrow> string list \<Rightarrow> string list
   \<Rightarrow> (string \<times> doc_details) list \<Rightarrow> (string \<times> doc_details) list" where
  "docs_info_loop cache_docs processed_docs kb_docs [] docs_info = docs_info"
| "docs_info_loop cache_docs processed_docs kb_docs (doc_name # rest) docs_info =
     docs_info_loop cache_docs processed_docs kb_docs rest
       (if doc_name \<noteq> [] \<and> length doc_name > 1 \<and> \<not> startswith doc_name ''.'' then
          AList.update doc_name
            \<lparr>in_cache = doc_name \<in> set cache_docs,
             in_processed_dir = doc_name \<in> set (map fst processed_docs),
             in_knowledge_base = doc_name \<in> set kb_docs,
             file_size = map_option fst (map_of processed_docs doc_name),
             process_date = map_option snd (map_of processed_docs doc_name)\<rparr> docs_info
        else docs_info)"

definition get_detailed_documents_info :: "env \<Rightarrow> world \<Rightarrow> (string \<times> doc_details) list" where
  "get_detailed_documents_info E w =
     (let cache_docs = cache_docs_loop (processed_files_cache w) [];
          processed_docs =
            (if path_exists w (PROCESSED_DIR E)
             then processed_docs_loop w (iterdir w (PROCESSED_DIR E)) [] else []);
          kb_docs = kb_docs_of (lightrag_storage w);
          all_doc_names = remdups (cache_docs @ map fst processed_docs @ kb_docs)
      in docs_info_loop cache_docs processed_docs kb_docs all_doc_names [])"

definition clean_name :: "string \<Rightarrow> string" where
  \<comment> \<open>\<^verbatim>\<open>doc.replace('\\', '/').split('/')[-1]\<close>\<close>
  "clean_name doc = basename (map (\<lambda>c. if c = CHR 0x5C then CHR ''/'' else c) doc)"

fun all_docs_cache_loop :: "string list \<Rightarrow> string list \<Rightarrow> string list" where
  "all_docs_cache_loop [] all_docs = all_docs"
| "all_docs_cache_loop (cached_file # rest) all_docs =
     (if cached_file \<noteq> [] then
        (let filename = basename cached_file
         in if filename \<noteq> [] \<and> filename \<noteq> cached_file
            then all_docs_cache_loop rest (set_add filename all_docs)
            else all_docs_cache_loop rest (set_add cached_file all_docs))
      else all_docs_cache_loop rest all_docs)"

fun all_docs_processed_loop :: "world \<Rightarrow> string list \<Rightarrow> string list \<Rightarrow> string list" where
  "all_docs_processed_loop w [] all_docs = all_docs"
| "all_docs_processed_loop w (file_path # rest) all_docs =
     (if is_file w file_path \<and> \<not> startswith (path_name file_path) ''.''
      then all_docs_processed_loop w rest (set_add (path_name file_path) all_docs)
      else all_docs_processed_loop w rest all_docs)"

fun clean_docs_loop :: "string list \<Rightarrow> string list \<Rightarrow> string list" where
  "clean_docs_loop [] clean_docs = clean_docs"
| "clean_docs_loop (doc # rest) clean_docs =
     (if doc \<noteq> [] then
        (if clean_name doc \<noteq> [] \<and> \<not> startswith (clean_name doc) ''.'' \<and> length (clean_name doc) > 1
         then clean_docs_loop rest (clean_docs @ [clean_name doc])
         else clean_docs_loop rest clean_docs)
      else clean_docs_loop rest clean_docs)"

definition get_processed_documents_list :: "env \<Rightarrow> world \<Rightarrow> string list" where
  "get_processed_documents_list E w =
     (let all_docs = all_docs_cache_loop (processed_files_cache w) [];
          all_docs = (if path_exists w (PROCESSED_DIR E)
                      then all_docs_processed_loop w (iterdir w (PROCESSED_DIR E)) all_docs
                      else all_docs);
          all_docs = (case lightrag_storage w of
                        Some (FullDocs docs_data) \<Rightarrow> kb_docs_loop docs_data all_docs
                      | _ \<Rightarrow> all_docs)
      in sort (remdups (clean_docs_loop all_docs [])))"


section \<open>Removal and full reset\<close>

definition remove_document_from_storage :: "env \<Rightarrow> string \<Rightarrow> world \<Rightarrow> bool \<times> world" where
  "remove_document_from_storage E doc_name w =
     (let cache_to_remove =
            filter (\<lambda>cached_file. contains cached_file doc_name \<or> endswith cached_file doc_name)
              (processed_files_cache w);
          w1 = w\<lparr>processed_files_cache :=
                   filter (\<lambda>item. item \<notin> set cache_to_remove) (processed_files_cache w)\<rparr>;
          w2 = save_processed_files_cache E w1;
          processed_file = path_join (PROCESSED_DIR E) doc_name
      in if path_exists w2 processed_file then
           (case rename E processed_file (path_join (PENDING_DIR E) doc_name) w2 of
              (Some e, w3) \<Rightarrow>
                (False, emit PRINT (''Error removing document from storage: '' @ str_exc e) w3)
            | (None, w3) \<Rightarrow>
                (True, emit PRINT (''Moved '' @ doc_name @ '' back to pending directory'') w3))
         else (True, w2))"

fun remove_selected_loop :: "env \<Rightarrow> string list \<Rightarrow> world \<Rightarrow> world" where
  "remove_selected_loop E [] w = w"
| "remove_selected_loop E (doc_name # rest) w =
     (case remove_document_from_storage E doc_name w of
        (success, w') \<Rightarrow>
          remove_selected_loop E rest
            (if success then emit PRINT (''Removed: '' @ doc_name) w'
             else emit PRINT (''Failed to remove: '' @ doc_name) w'))"

fun print_lines :: "string list \<Rightarrow> world \<Rightarrow> world" where
  "print_lines [] w = w"
| "print_lines (l # ls) w = print_lines ls (emit PRINT l w)"

definition remove_document :: "env \<Rightarrow> string \<Rightarrow> world \<Rightarrow> bool \<times> world" where
  "remove_document E doc_identifier w =
     (let w1 = emit PRINT (''Removing document: '' @ doc_identifier) w;
          available_docs = get_processed_documents_list E w1;
          matches = filter (\<lambda>doc. contains (lower doc) (lower doc_identifier)) available_docs
      in if matches = [] then
           (False, print_lines (map (\<lambda>doc. ''  - '' @ doc) available_docs)
                     (emit PRINT ''Available documents:''
                        (emit PRINT (''Document '' @ quoted doc_identifier @ '' not found'') w1)))
         else if length matches > 1 then
           (let w2 = print_lines
                       (map (\<lambda>(i, m). ''  '' @ string_of_nat i @ ''. '' @ m)
                          (zip [1..<Suc (length matches)] matches))
                       (emit PRINT (''Multiple matches found for '' @ quoted doc_identifier @ '':'') w1)
            in case user_input E of
                 Inl e \<Rightarrow> (False, emit PRINT (''Error removing document: '' @ str_exc e) w2)
               | Inr line \<Rightarrow>
                   (let choice = strip line
                    in if lower choice = ''all'' then (True, remove_selected_loop E matches w2)
                       else
                         (case py_int choice of
                            None \<Rightarrow> (False, emit PRINT ''Invalid selection'' w2)
                          | Some n \<Rightarrow>
                              (case py_index matches (n - 1) of
                                 None \<Rightarrow> (False, emit PRINT ''Invalid selection'' w2)
                               | Some m \<Rightarrow> (True, remove_selected_loop E [m] w2)))))
         else (True, remove_selected_loop E matches w1))"

definition clear_lightrag_storage :: "env \<Rightarrow> world \<Rightarrow> exception option \<times> world" where
  "clear_lightrag_storage E w =
     (if lightrag_storage w \<noteq> None then
        (case rmtree_error E of
           Some e \<Rightarrow> (Some e, w)
         | None \<Rightarrow>
             (let w1 = w\<lparr>lightrag_storage := None,
                         fs_ops := fs_ops w @ [Rmtree (LIGHTRAG_STORAGE_DIR E)]\<rparr>
              in case mkdir_error E of
                   Some e \<Rightarrow> (Some e, w1)
                 | None \<Rightarrow>
                     (None, emit PRINT ''Cleared knowledge graph storage''
                              (w1\<lparr>lightrag_storage := Some NoFullDocs,
                                  fs_ops := fs_ops w1 @ [Mkdir (LIGHTRAG_STORAGE_DIR E)]\<rparr>))))
      else (None, w))"

definition clear_cache_file :: "env \<Rightarrow> world \<Rightarrow> exception option \<times> world" where
  "clear_cache_file E w =
     (let cache_file = path_join (CACHE_DIR E) ''processed_files.json''
      in case cache_dir w of
           None \<Rightarrow> (None, w)
         | Some NoCacheFile \<Rightarrow> (None, emit PRINT ''Cleared document cache'' w)
         | Some st \<Rightarrow>
             (case unlink_error E cache_file of
                Some e \<Rightarrow> (Some e, w)
              | None \<Rightarrow>
                  (None, emit PRINT ''Cleared document cache''
                           (w\<lparr>cache_dir := Some NoCacheFile,
                              fs_ops := fs_ops w @ [Unlink cache_file]\<rparr>))))"

definition read_bytes :: "env \<Rightarrow> string \<Rightarrow> world \<Rightarrow> exception option \<times> world" where
  "read_bytes E p w =
     (case read_error E p of
        Some e \<Rightarrow> (Some e, w)
      | None \<Rightarrow> (None, w\<lparr>fs_ops := fs_ops w @ [ReadBytes p]\<rparr>))"

definition write_bytes :: "env \<Rightarrow> string \<Rightarrow> world \<Rightarrow> exception option \<times> world" where
  \<comment> \<open>creates the file anew, or replaces it\<close>
  "write_bytes E p w =
     (case write_error E p of
        Some e \<Rightarrow> (Some e, w)
      | None \<Rightarrow>
          (None, w\<lparr>files := filter (\<lambda>(q, e). q \<noteq> p) (files w) @ [(p, RegularFile (fresh_stat E))],
                   fs_ops := fs_ops w @ [WriteBytes p]\<rparr>))"

definition unlink :: "env \<Rightarrow> string \<Rightarrow> world \<Rightarrow> exception option \<times> world" where
  "unlink E p w =
     (case unlink_error E p of
        Some e \<Rightarrow> (Some e, w)
      | None \<Rightarrow>
          (None, w\<lparr>files := filter (\<lambda>(q, e). q \<noteq> p) (files w),
                   fs_ops := fs_ops w @ [Unlink p]\<rparr>))"

fun move_back_loop :: "env \<Rightarrow> string list \<Rightarrow> world \<Rightarrow> exception option \<times> world" where
  "move_back_loop E [] w = (None, w)"
| "move_back_loop E (file # rest) w =
     (if is_file w file then
        (case read_bytes E file w of
           (Some e, w1) \<Rightarrow> (Some e, w1)
         | (None, w1) \<Rightarrow>
             (case write_bytes E (path_join (PENDING_DIR E) (path_name file)) w1 of
                (Some e, w2) \<Rightarrow> (Some e, w2)
              | (None, w2) \<Rightarrow>
                  (case unlink E file w2 of
                     (Some e, w3) \<Rightarrow> (Some e, w3)
                   | (None, w3) \<Rightarrow> move_back_loop E rest w3)))
      else move_back_loop E rest w)"

definition move_processed_back :: "env \<Rightarrow> world \<Rightarrow> exception option \<times> world" where
  "move_processed_back E w =
     (if path_exists w (PROCESSED_DIR E) then
        (case move_back_loop E (iterdir w (PROCESSED_DIR E)) w of
           (Some e, w1) \<Rightarrow> (Some e, w1)
         | (None, w1) \<Rightarrow> (None, emit PRINT ''Moved processed files back to pending'' w1))
      else (None, w))"

definition clear_storage_directories :: "env \<Rightarrow> world \<Rightarrow> world" where
  "clear_storage_directories E w =
     (case clear_lightrag_storage E w of
        (Some e, w1) \<Rightarrow> emit PRINT (''Warning: Could not fully clear storage: '' @ str_exc e) w1
      | (None, w1) \<Rightarrow>
          (case clear_cache_file E w1 of
             (Some e, w2) \<Rightarrow> emit PRINT (''Warning: Could not fully clear storage: '' @ str_exc e) w2
           | (None, w2) \<Rightarrow>
               (case move_processed_back E w2 of
                  (Some e, w3) \<Rightarrow>
                    emit PRINT (''Warning: Could not fully clear storage: '' @ str_exc e) w3
                | (None, w3) \<Rightarrow> w3)))"

fun remove_all_loop :: "env \<Rightarrow> string list \<Rightarrow> nat \<Rightarrow> world \<Rightarrow> nat \<times> world" where
  "remove_all_loop E [] success_count w = (success_count, w)"
| "remove_all_loop E (doc_name # rest) success_count w =
     (case remove_document_from_storage E doc_name w of
        (success, w') \<Rightarrow>
          remove_all_loop E rest (if success then success_count + 1 else success_count) w')"

definition remove_all_documents :: "env \<Rightarrow> world \<Rightarrow> bool \<times> world" where
  "remove_all_documents E w =
     (let docs = get_processed_documents_list E w
      in if docs = [] then (True, emit PRINT ''No documents to remove'' w)
         else
           (let w1 = print_lines (map (\<lambda>doc. ''  - '' @ doc) (take 5 docs))
                       (emit PRINT (''This will remove '' @ string_of_nat (length docs)
                                    @ '' processed documents:'') w);
                w2 = (if length docs > 5
                      then emit PRINT (''  ... and '' @ string_of_nat (length docs - 5) @ '' more'') w1
                      else w1)
            in case user_input E of
                 Inl e \<Rightarrow> (False, emit PRINT (''Error removing all documents: '' @ str_exc e) w2)
               | Inr line \<Rightarrow>
                   (if lower (strip line) \<noteq> ''yes'' then (False, emit PRINT ''Operation cancelled'' w2)
                    else
                      (case remove_all_loop E docs 0 w2 of
                         (success_count, w3) \<Rightarrow>
                           (True, emit PRINT ''Knowledge base reset''
                                    (emit PRINT (''Removed '' @ string_of_nat success_count @ ''/''
                                                 @ string_of_nat (length docs) @ '' documents'')
                                       (clear_storage_directories E w3)))))))"

section \<open>The content normalizer\<close>

text \<open>
  \<^verbatim>\<open>robust_llm_func\<close> of \<^verbatim>\<open>_fix_modal_processors\<close>. Its input is what the call of the
  language model does: it raises, returns \<^verbatim>\<open>None\<close>, or returns a text (a value that is not
  a string is first turned into one by \<^verbatim>\<open>str\<close>). Its result is the value whose
  \<^verbatim>\<open>json.dumps\<close> is returned, or the exception that reaches the caller, together with
  what is logged.
\<close>

datatype llm_result = LLMRaises exception | LLMNone | LLMText string

fun find_from :: "string \<Rightarrow> string \<Rightarrow> nat \<Rightarrow> int" where
  "find_from [] sub i = (if sub = [] then int i else - 1)"
| "find_from (c # cs) sub i = (if prefix sub (c # cs) then int i else find_from cs sub (Suc i))"

definition str_find :: "string \<Rightarrow> string \<Rightarrow> int" where
  \<comment> \<open>\<^verbatim>\<open>s.find(sub)\<close>: the index of the first occurrence, or \<open>-1\<close>\<close>
  "str_find s sub = find_from s sub 0"

definition extract_fenced :: "string \<Rightarrow> string" where
  \<comment> \<open>Step 1: extract JSON from markdown blocks\<close>
  "extract_fenced response =
     (if contains response ''```json'' \<or> contains response ''```'' then
        (case findall_group fenced_json_pattern response of
           [] \<Rightarrow> response
         | b # bs \<Rightarrow> strip b)
      else response)"

fun find_valid_json :: "string \<Rightarrow> string list \<Rightarrow> json option \<times> string" where
  \<comment> \<open>Step 2: test each JSON match for validity\<close>
  "find_valid_json response [] = (None, [])"
| "find_valid_json response (json_candidate # rest) =
     (case json_loads json_candidate of
        Some parsed \<Rightarrow>
          (let json_end = str_find response json_candidate + int (length json_candidate)
           in (Some parsed,
               if json_end < int (length response) then strip (drop (nat json_end) response) else []))
      | None \<Rightarrow> find_valid_json response rest)"

definition extract_entities :: "string \<Rightarrow> string list" where
  "extract_entities original_response =
     concat (map (\<lambda>pattern. take 5 (findall pattern original_response)) entity_patterns)"

definition construct_from_content :: "string \<Rightarrow> json" where
  \<comment> \<open>Step 3: no valid JSON found, construct one from the content
      (\<^verbatim>\<open>list(set(entities))\<close> in the order of first occurrence)\<close>
  "construct_from_content original_response =
     JObj [(''description'', JStr (take 500 original_response)),
           (''entities'', JArr (map JStr (take 10 (remdups (extract_entities original_response))))),
           (''analysis'', JStr ''Content processed with partial extraction''),
           (''original_length'', JNum (string_of_nat (length original_response)))]"

definition add_notes :: "string \<Rightarrow> json \<Rightarrow> json" where
  \<comment> \<open>Step 4: enhance JSON with extra content if available\<close>
  "add_notes extra_content valid_json =
     (case valid_json of
        JObj kvs \<Rightarrow>
          if extra_content \<noteq> [] \<and> ''additional_notes'' \<notin> set (map fst kvs)
          then JObj (AList.update ''additional_notes'' (JStr (take 200 extra_content)) kvs)
          else valid_json
      | _ \<Rightarrow> valid_json)"

definition ensure_required :: "string \<Rightarrow> json \<Rightarrow> json" where
  \<comment> \<open>Step 5: ensure required fields exist\<close>
  "ensure_required original_response valid_json =
     (case valid_json of
        JObj kvs \<Rightarrow>
          (let kvs1 = (if ''description'' \<notin> set (map fst kvs)
                       then AList.update ''description'' (JStr (take 200 original_response)) kvs
                       else kvs);
               kvs2 = (if ''entities'' \<notin> set (map fst kvs1)
                       then AList.update ''entities'' (JArr []) kvs1
                       else kvs1)
           in JObj kvs2)
      | _ \<Rightarrow> valid_json)"

definition py_len :: "json \<Rightarrow> exception + nat" where
  "py_len v =
     (case v of
        JStr t \<Rightarrow> Inr (length t)
      | JArr vs \<Rightarrow> Inr (length vs)
      | JObj kvs \<Rightarrow> Inr (length kvs)
      | _ \<Rightarrow> Inl (TypeError (''object of type '' @ quoted (type_name v) @ '' has no len()'')))"

definition count_entities :: "json \<Rightarrow> exception + nat" where
  \<comment> \<open>\<^verbatim>\<open>len(valid_json.get('entities', []))\<close>\<close>
  "count_entities valid_json =
     (case valid_json of
        JObj kvs \<Rightarrow> py_len (case map_of kvs ''entities'' of Some v \<Rightarrow> v | None \<Rightarrow> JArr [])
      | _ \<Rightarrow> Inl (AttributeError (quoted (type_name valid_json) @ '' object has no attribute ''
                                   @ quoted ''get'')))"

definition normalize_response :: "string \<Rightarrow> (exception \<times> string \<times> message list) + (json \<times> message list)" where
  \<comment> \<open>the body of the \<^verbatim>\<open>try\<close> once the response is a string; on the left the exception
      with the value of \<^verbatim>\<open>response\<close> at that moment\<close>
  "normalize_response raw =
     (let original_response = strip raw;
          response = extract_fenced original_response;
          json_matches = findall json_pattern response
      in case find_valid_json response json_matches of
           (found, extra_content) \<Rightarrow>
             (let log = (case found of
                           None \<Rightarrow> [Msg INFO (''No valid JSON found, constructing from content: ''
                                               @ take 100 original_response @ ''...'')]
                         | Some parsed \<Rightarrow> []);
                  valid_json = (case found of
                                  None \<Rightarrow> construct_from_content original_response
                                | Some parsed \<Rightarrow> parsed);
                  valid_json = ensure_required original_response (add_notes extra_content valid_json)
              in case count_entities valid_json of
                   Inl e \<Rightarrow> Inl (e, response, log)
                 | Inr n \<Rightarrow>
                     Inr (valid_json,
                          log @ [Msg INFO (''Successfully processed response with ''
                                           @ string_of_nat n @ '' entities'')])))"

definition error_record :: "exception \<Rightarrow> string option \<Rightarrow> json" where
  "error_record e response =
     JObj [(''description'', JStr (''Processing error occurred: '' @ take 100 (str_exc e))),
           (''entities'', JArr []),
           (''error'', JBool True),
           (''original_content'',
              JStr (case response of Some r \<Rightarrow> take 300 r | None \<Rightarrow> ''No content available''))]"

text \<open>
  The function body imports \<^verbatim>\<open>json\<close> in Step 2 (\<^verbatim>\<open>import json\<close> inside the \<^verbatim>\<open>try\<close>),
  which makes \<^verbatim>\<open>json\<close> a local name of the function, bound only once that line has run.
  The handler logs the error and then evaluates \<^verbatim>\<open>json.dumps(...)\<close>: when the call of the
  language model raised, the import has not run and the handler itself raises
  \<^verbatim>\<open>UnboundLocalError\<close>, which reaches the caller. Every other exception of the body
  comes after the import, and the handler returns the error record.
\<close>

definition robust_llm_func :: "llm_result \<Rightarrow> (exception + json) \<times> message list" where
  "robust_llm_func result =
     (case result of
        LLMRaises e \<Rightarrow>
          (Inl (UnboundLocalError (''cannot access local variable '' @ quoted ''json''
                                   @ '' where it is not associated with a value'')),
           [Msg ERROR (''Error in robust LLM function: '' @ str_exc e)])
      | LLMNone \<Rightarrow>
          (Inr (JObj [(''description'', JStr ''Content processed but no analysis available''),
                      (''entities'', JArr []),
                      (''content'', JStr ''Unable to process content'')]),
           [Msg WARNING ''LLM returned None, using fallback response''])
      | LLMText raw \<Rightarrow>
          (case normalize_response raw of
             Inl (e, response, log) \<Rightarrow>
               (Inr (error_record e (Some response)),
                log @ [Msg ERROR (''Error in robust LLM function: '' @ str_exc e)])
           | Inr (valid_json, log) \<Rightarrow> (Inr valid_json, log)))"





section \<open>What the pipeline does on a file\<close>

definition pipeline_raises_on :: "env \<Rightarrow> string \<Rightarrow> bool" where
  \<comment> \<open>the pipeline raises on this file, whatever the knowledge base holds\<close>
  "pipeline_raises_on E f = (\<forall>kb. fst (pipeline E f kb) \<noteq> None)"

definition pipeline_accepts :: "env \<Rightarrow> string \<Rightarrow> bool" where
  \<comment> \<open>the pipeline returns normally on this file, whatever the knowledge base holds\<close>
  "pipeline_accepts E f = (\<forall>kb. fst (pipeline E f kb) = None)"

section \<open>The calls of a batch, one by one\<close>

text \<open>
  What a batch over a directory snapshot does, call by call: for each regular file of the
  snapshot, in order, \<open>process_document\<close> runs in the world the previous calls left, and
  the outcome of the call is what it returned together with whether the file's path is in
  the cache after it. The counts of a list of outcomes: a call that returned \<open>True\<close> is
  processed, one that returned \<open>False\<close> is skipped when the path is in the cache after the
  call and failed otherwise.
\<close>

fun batch_outcomes :: "env \<Rightarrow> bool \<Rightarrow> string list \<Rightarrow> world \<Rightarrow> (bool \<times> bool) list" where
  "batch_outcomes E force_reprocess [] w = []"
| "batch_outcomes E force_reprocess (file_path # rest) w =
     (if is_file w file_path then
        (case process_document E file_path force_reprocess w of
           (success, w') \<Rightarrow>
             (success, file_path \<in> set (processed_files_cache w'))
               # batch_outcomes E force_reprocess rest w')
      else batch_outcomes E force_reprocess rest w)"

definition count_outcomes :: "(bool \<times> bool) list \<Rightarrow> results" where
  "count_outcomes outcomes =
     \<lparr>processed = length (filter (\<lambda>(success, cached). success) outcomes),
      skipped = length (filter (\<lambda>(success, cached). \<not> success \<and> cached) outcomes),
      failed = length (filter (\<lambda>(success, cached). \<not> success \<and> \<not> cached) outcomes)\<rparr>"

section \<open>The three sources of the registry, as sets\<close>

definition cache_names :: "world \<Rightarrow> string set" where
  \<comment> \<open>every basename found in the cache's identifiers\<close>
  "cache_names w = set (map basename (filter (\<lambda>c. c \<noteq> []) (processed_files_cache w)))"

definition processed_names :: "env \<Rightarrow> world \<Rightarrow> string set" where
  \<comment> \<open>every file name found directly in the processed directory, hidden files excluded\<close>
  "processed_names E w =
     (if path_exists w (PROCESSED_DIR E)
      then set (map path_name
                 (filter (\<lambda>p. is_file w p \<and> \<not> startswith (path_name p) ''.'')
                    (iterdir w (PROCESSED_DIR E))))
      else {})"

definition kb_names :: "world \<Rightarrow> string set" where
  \<comment> \<open>every basename derivable from the document table: the basename of the \<^verbatim>\<open>file_path\<close> of
      each record that has one; a missing or malformed table has none\<close>
  "kb_names w =
     (case lightrag_storage w of
        Some (FullDocs docs_data) \<Rightarrow>
          set (concat (map (\<lambda>(doc_id, d). case d of FilePath p \<Rightarrow> [basename p] | _ \<Rightarrow> [])
                         docs_data))
      | _ \<Rightarrow> {})"

definition file_paths_are_strings :: "world \<Rightarrow> bool" where
  \<comment> \<open>no record of the document table has a \<^verbatim>\<open>file_path\<close> that is not a string\<close>
  "file_paths_are_strings w =
     (case lightrag_storage w of
        Some (FullDocs docs_data) \<Rightarrow> list_all (\<lambda>(doc_id, d). d \<noteq> FilePathNotStr) docs_data
      | _ \<Rightarrow> True)"

definition listed_name :: "string \<Rightarrow> bool" where
  \<comment> \<open>the guard of the listing: longer than one character, not hidden\<close>
  "listed_name n = (n \<noteq> [] \<and> length n > 1 \<and> \<not> startswith n ''.'')"

section \<open>How document files are moved\<close>

definition is_rename :: "fs_op \<Rightarrow> bool" where
  "is_rename op = (case op of Rename s d \<Rightarrow> True | _ \<Rightarrow> False)"

definition document_dirs_op :: "env \<Rightarrow> fs_op \<Rightarrow> bool" where
  \<comment> \<open>the call adds an entry to the pending or the processed directory, or removes one\<close>
  "document_dirs_op E op =
     (case op of
        Rename s d \<Rightarrow> path_parent s \<in> {PENDING_DIR E, PROCESSED_DIR E}
                      \<or> path_parent d \<in> {PENDING_DIR E, PROCESSED_DIR E}
      | WriteBytes p \<Rightarrow> path_parent p \<in> {PENDING_DIR E, PROCESSED_DIR E}
      | Unlink p \<Rightarrow> path_parent p \<in> {PENDING_DIR E, PROCESSED_DIR E}
      | _ \<Rightarrow> False)"

definition only_by_rename :: "env \<Rightarrow> fs_op list \<Rightarrow> bool" where
  "only_by_rename E ops = list_all (\<lambda>op. document_dirs_op E op \<longrightarrow> is_rename op) ops"

section \<open>A concrete configuration and world\<close>

text \<open>
  A pending directory with one file that is already in the cache, one new file the pipeline
  accepts and one it raises on, and a file outside the pending directory.
\<close>

definition ex_env :: env where
  "ex_env = \<lparr>PENDING_DIR = ''pending'', PROCESSED_DIR = ''processed'',
          CACHE_DIR = ''cache'', LIGHTRAG_STORAGE_DIR = ''kb'',
          pipeline = (\<lambda>p kb. (if p = ''pending/bad.pdf'' then Some (PipelineError ''parse failed'') else None, kb)),
          rename_error = (\<lambda>s d. None), cache_write_error = None, rmtree_error = None,
          mkdir_error = None,
          unlink_error = (\<lambda>p. None), read_error = (\<lambda>p. None), write_error = (\<lambda>p. None),
          fresh_stat = Some (''1.0 KB'', ''2025-01-01 00:00''), user_input = Inr ''1''\<rparr>"

definition ex_pending :: world where
  "ex_pending = \<lparr>processed_files_cache = [''pending/old.pdf''],
          files = [(''pending'', Directory), (''processed'', Directory),
                   (''pending/old.pdf'', RegularFile None),
                   (''pending/new.pdf'', RegularFile None),
                   (''pending/bad.pdf'', RegularFile None),
                   (''lib/book.pdf'', RegularFile None)],
          cache_dir = Some NoCacheFile, lightrag_storage = Some NoFullDocs,
          pipeline_calls = [], fs_ops = [], messages = []\<rparr>"

text \<open>The same pending directory when two of its three files are in the cache.\<close>

definition ex_two_cached :: world where
  "ex_two_cached = ex_pending\<lparr>processed_files_cache := [''pending/old.pdf'', ''pending/new.pdf'']\<rparr>"

text \<open>
  A world after some processing: a processed file that is also in the cache, a cache entry
  without a file, a hidden file, and two knowledge-base records, one with a POSIX path and
  one with a path written with backslashes.
\<close>

definition ex_processed :: world where
  "ex_processed = \<lparr>processed_files_cache = [''pending/ab.pdf'', ''/data/cd.pdf''],
          files = [(''pending'', Directory), (''processed'', Directory),
                   (''processed/ab.pdf'', RegularFile (Some (''2.0 KB'', ''2025-01-01 10:00''))),
                   (''processed/.keep'', RegularFile None)],
          cache_dir = Some (CacheText (json_dumps_strings [''pending/ab.pdf'', ''/data/cd.pdf''])),
          lightrag_storage = Some (FullDocs [(''doc-1'', FilePath ''/x/y/report.PDF''),
             (''doc-2'', FilePath (''C:'' @ [CHR 0x5C] @ ''x'' @ [CHR 0x5C] @ ''y'' @ [CHR 0x5C] @ ''report.pdf''))]),
          pipeline_calls = [], fs_ops = [], messages = []\<rparr>"

definition ex_env_rmtree_fails :: env where
  "ex_env_rmtree_fails = ex_env\<lparr>rmtree_error := Some (OSError ''Permission denied'')\<rparr>"

definition ex_env_unlink_fails :: env where
  "ex_env_unlink_fails = ex_env\<lparr>unlink_error := (\<lambda>p. Some (OSError ''Read-only file system''))\<rparr>"

definition ex_env_rename_fails :: env where
  "ex_env_rename_fails = ex_env\<lparr>rename_error := (\<lambda>s d. Some (OSError ''Permission denied''))\<rparr>"

definition ex_short_names :: world where
  "ex_short_names = \<lparr>processed_files_cache = [''/data/a''],
          files = [(''pending'', Directory), (''processed'', Directory)],
          cache_dir = Some (CacheText (json_dumps_strings [''/data/a''])),
          lightrag_storage = Some (FullDocs [(''doc-1'', FilePath ''/home/u/.profile'')]),
          pipeline_calls = [], fs_ops = [], messages = []\<rparr>"

definition ex_three_sources :: world where
  "ex_three_sources = \<lparr>processed_files_cache = [''/data/a.pdf'', ''pending/a.pdf''],
          files = [(''pending'', Directory), (''processed'', Directory),
                   (''processed/b.pdf'', RegularFile None)],
          cache_dir = Some NoCacheFile,
          lightrag_storage = Some (FullDocs [(''doc-1'', FilePath ''/kb/c.pdf'')]),
          pipeline_calls = [], fs_ops = [], messages = []\<rparr>"

text \<open>
  The three sources of the registry with one name each, where the document table has,
  before the record of \<open>c.pdf\<close>, a record whose \<^verbatim>\<open>file_path\<close> is \<^verbatim>\<open>null\<close>.
\<close>

definition ex_null_file_path :: world where
  "ex_null_file_path = \<lparr>processed_files_cache = [''/data/a.pdf''],
          files = [(''pending'', Directory), (''processed'', Directory),
                   (''processed/b.pdf'', RegularFile None)],
          cache_dir = Some NoCacheFile,
          lightrag_storage = Some (FullDocs [(''doc-1'', FilePathNotStr),
                                             (''doc-2'', FilePath ''/kb/c.pdf'')]),
          pipeline_calls = [], fs_ops = [], messages = []\<rparr>"

definition ex_kb_paths :: world where
  "ex_kb_paths = \<lparr>processed_files_cache = [],
          files = [(''pending'', Directory), (''processed'', Directory)],
          cache_dir = Some NoCacheFile,
          lightrag_storage = Some (FullDocs
            [(''doc-1'', FilePath ''/x/y/report.PDF''),
             (''doc-2'', FilePath (''C:'' @ [CHR 0x5C] @ ''x'' @ [CHR 0x5C] @ ''y'' @ [CHR 0x5C] @ ''report.pdf''))]),
          pipeline_calls = [], fs_ops = [], messages = []\<rparr>"

section \<open>Frame lemmas\<close>

lemma emit_simps [simp]:
  "processed_files_cache (emit l m w) = processed_files_cache w"
  "files (emit l m w) = files w"
  "cache_dir (emit l m w) = cache_dir w"
  "lightrag_storage (emit l m w) = lightrag_storage w"
  "pipeline_calls (emit l m w) = pipeline_calls w"
  "fs_ops (emit l m w) = fs_ops w"
  "messages (emit l m w) = messages w @ [Msg l m]"
  by (simp_all add: emit_def)

lemma path_exists_emit [simp]: "path_exists (emit l m w) p = path_exists w p"
  by (simp add: path_exists_def)

lemma is_file_emit [simp]: "is_file (emit l m w) p = is_file w p"
  by (simp add: is_file_def)

lemma save_simps [simp]:
  "processed_files_cache (save_processed_files_cache E w) = processed_files_cache w"
  "files (save_processed_files_cache E w) = files w"
  "lightrag_storage (save_processed_files_cache E w) = lightrag_storage w"
  "pipeline_calls (save_processed_files_cache E w) = pipeline_calls w"
  "fs_ops (save_processed_files_cache E w) = fs_ops w"
  by (simp_all add: save_processed_files_cache_def split: option.splits)

lemma rename_simps:
  "processed_files_cache (snd (rename E s d w)) = processed_files_cache w"
  "cache_dir (snd (rename E s d w)) = cache_dir w"
  "lightrag_storage (snd (rename E s d w)) = lightrag_storage w"
  "pipeline_calls (snd (rename E s d w)) = pipeline_calls w"
  "messages (snd (rename E s d w)) = messages w"
  by (simp_all add: rename_def split: option.splits)

lemma mark_simps:
  "processed_files_cache (snd (mark_file_as_processed E p w)) = processed_files_cache w"
  "cache_dir (snd (mark_file_as_processed E p w)) = cache_dir w"
  "lightrag_storage (snd (mark_file_as_processed E p w)) = lightrag_storage w"
  "pipeline_calls (snd (mark_file_as_processed E p w)) = pipeline_calls w"
  "messages (snd (mark_file_as_processed E p w)) = messages w"
  by (simp_all add: mark_file_as_processed_def rename_def Let_def split: option.splits prod.splits)

lemma complete_simps:
  "processed_files_cache (snd (process_document_complete E p w)) = processed_files_cache w"
  "files (snd (process_document_complete E p w)) = files w"
  "cache_dir (snd (process_document_complete E p w)) = cache_dir w"
  "pipeline_calls (snd (process_document_complete E p w)) = pipeline_calls w @ [p]"
  "fs_ops (snd (process_document_complete E p w)) = fs_ops w"
  "messages (snd (process_document_complete E p w)) = messages w"
  by (simp_all add: process_document_complete_def split: prod.splits)

lemma cache_add_mem [simp]: "set (cache_add x xs) = insert x (set xs)"
  by (auto simp: cache_add_def)

lemma process_document_True_cached:
  assumes "process_document E p force w = (True, w1)"
  shows "p \<in> set (processed_files_cache w1)"
proof -
  let ?ex_pending = "emit INFO (''Processing document: '' @ p) w"
  obtain r wa where c: "process_document_complete E p ?ex_pending = (r, wa)" by force
  have r: "r = None" using assms c
    by (auto simp: process_document_def split: if_splits option.splits)
  let ?w2 = "wa\<lparr>processed_files_cache := cache_add p (processed_files_cache wa)\<rparr>"
  let ?w3 = "save_processed_files_cache E ?w2"
  let ?m = "if path_parent p = PENDING_DIR E then mark_file_as_processed E p ?w3 else (Inr p, ?w3)"
  obtain d w4 where m: "?m = (Inr d, w4)" and w1: "w1 = emit INFO (''Successfully processed: '' @ p) w4"
    using assms c r
    by (auto simp: process_document_def Let_def split: if_splits sum.splits prod.splits)
  have "processed_files_cache w4 = processed_files_cache ?w3"
    using m mark_simps(1)[of E p ?w3] by (auto split: if_splits)
  then show ?thesis using w1 by simp
qed


lemma process_document_calls:
  assumes "process_document E p force w = (b, w1)"
  shows "length (pipeline_calls w1) \<le> length (pipeline_calls w) + 1"
proof -
  let ?ex_pending = "emit INFO (''Processing document: '' @ p) w"
  obtain r wa where c: "process_document_complete E p ?ex_pending = (r, wa)" by force
  have ca: "pipeline_calls wa = pipeline_calls w @ [p]"
    using complete_simps(4)[of E p ?ex_pending] c by simp
  let ?w2 = "wa\<lparr>processed_files_cache := cache_add p (processed_files_cache wa)\<rparr>"
  let ?w3 = "save_processed_files_cache E ?w2"
  let ?m = "if path_parent p = PENDING_DIR E then mark_file_as_processed E p ?w3 else (Inr p, ?w3)"
  have "pipeline_calls (snd ?m) = pipeline_calls wa"
    using mark_simps(4)[of E p ?w3] by simp
  then show ?thesis using assms c ca
    by (auto simp: process_document_def Let_def split: if_splits sum.splits prod.splits option.splits)
qed

section \<open>Idempotency of processing\<close>

text \<open>
  C1. Once \<open>process_document E p\<close> has returned \<open>True\<close>, a second call on the same path
  without \<open>force_reprocess\<close> returns \<open>False\<close>, makes no pipeline call and leaves the cache,
  in memory and on disk, as it was; the two calls together make at most one pipeline call.
  (When the first call moved the file out of the pending directory the second one stops at
  the existence check, otherwise at the skip check.)
\<close>

theorem process_document_twice:
  assumes "process_document E p force w = (True, w1)"
  shows "fst (process_document E p False w1) = False
       \<and> pipeline_calls (snd (process_document E p False w1)) = pipeline_calls w1
       \<and> processed_files_cache (snd (process_document E p False w1)) = processed_files_cache w1
       \<and> cache_dir (snd (process_document E p False w1)) = cache_dir w1
       \<and> length (pipeline_calls (snd (process_document E p False w1))) \<le> length (pipeline_calls w) + 1"
proof -
  have c: "p \<in> set (processed_files_cache w1)"
    using assms by (rule process_document_True_cached)
  have s: "process_document E p False w1 =
       (False, emit (if path_exists w1 p then INFO else ERROR)
                 (if path_exists w1 p then ''File already processed, skipping: '' @ p
                  else ''File not found: '' @ p) w1)"
    using c by (simp add: process_document_def)
  have n: "length (pipeline_calls w1) \<le> length (pipeline_calls w) + 1"
    using assms by (rule process_document_calls)
  show ?thesis using n by (simp add: s)
qed

theorem process_document_twice_witness:
  "fst (process_document ex_env ''lib/book.pdf'' False ex_pending) = True
   \<and> fst (process_document ex_env ''lib/book.pdf'' False (snd (process_document ex_env ''lib/book.pdf'' False ex_pending))) = False
   \<and> pipeline_calls (snd (process_document ex_env ''lib/book.pdf'' False (snd (process_document ex_env ''lib/book.pdf'' False ex_pending)))) = [''lib/book.pdf'']"
proof -
  have f: "fst (process_document ex_env ''lib/book.pdf'' False ex_pending) = True"
    by code_simp
  have c: "pipeline_calls (snd (process_document ex_env ''lib/book.pdf'' False ex_pending)) = [''lib/book.pdf'']"
    by code_simp
  have h: "process_document ex_env ''lib/book.pdf'' False ex_pending = (True, snd (process_document ex_env ''lib/book.pdf'' False ex_pending))"
    using f by (simp add: prod_eq_iff)
  show ?thesis using process_document_twice [OF h] f c by simp
qed


section \<open>Cache persistence\<close>

subsection \<open>Decoding what \<^verbatim>\<open>json.dumps\<close> wrote\<close>

lemma hex_val_digit: "k < 16 \<Longrightarrow> hex_val (hex_digit k) = Some k"
proof -
  have "\<forall>k\<in>set [0..<16]. hex_val (hex_digit k) = Some k" by code_simp
  then show "k < 16 \<Longrightarrow> hex_val (hex_digit k) = Some k" by simp
qed

lemma hex4_escape:
  "hex4 (CHR ''0'') (CHR ''0'') (hex_digit (of_char c div 16)) (hex_digit (of_char c mod 16))
     = Some (of_char c)"
proof -
  have "(of_char c :: nat) div 16 < 16"
    using nat_of_char_less_256 [of c] by (simp add: less_mult_imp_div_less)
  moreover have z: "hex_val (CHR ''0'') = Some 0" by (simp add: hex_val_def)
  ultimately show ?thesis
    by (simp add: hex4_def hex_val_digit)
qed

lemma scan_string_escape:
  "scan_string (escape_char c @ t) acc = scan_string t (c # acc)"
proof -
  consider (q) "c = CHR 0x22" | (b) "c = CHR 0x5C" | (n) "c = CHR 0x0A" | (r) "c = CHR 0x0D"
    | (t) "c = CHR 0x09" | (bs) "c = CHR 0x08" | (f) "c = CHR 0x0C"
    | (u) "c \<notin> {CHR 0x22, CHR 0x5C, CHR 0x0A, CHR 0x0D, CHR 0x09, CHR 0x08, CHR 0x0C}"
          "(of_char c :: nat) < 32 \<or> (of_char c :: nat) > 126"
    | (p) "c \<notin> {CHR 0x22, CHR 0x5C, CHR 0x0A, CHR 0x0D, CHR 0x09, CHR 0x08, CHR 0x0C}"
          "\<not> ((of_char c :: nat) < 32 \<or> (of_char c :: nat) > 126)"
    by blast
  then show ?thesis
  proof cases
    case u
    then have e: "escape_char c = [CHR 0x5C, CHR ''u'', CHR ''0'', CHR ''0'',
              hex_digit (of_char c div 16), hex_digit (of_char c mod 16)]"
      by (simp add: escape_char_def)
    show ?thesis by (simp add: e hex4_escape)
  next
    case p
    then have e: "escape_char c = [c]" by (simp add: escape_char_def)
    show ?thesis using p by (simp add: e)
  qed (simp_all add: escape_char_def unescape_def)
qed

lemma scan_string_escaped:
  "scan_string (concat (map escape_char s) @ CHR 0x22 # rest) acc = Some (rev acc @ s, rest)"
proof (induction s arbitrary: acc)
  case Nil
  show ?case by simp
next
  case (Cons c s)
  have "scan_string (concat (map escape_char (c # s)) @ CHR 0x22 # rest) acc
        = scan_string (escape_char c @ (concat (map escape_char s) @ CHR 0x22 # rest)) acc"
    by simp
  also have "\<dots> = scan_string (concat (map escape_char s) @ CHR 0x22 # rest) (c # acc)"
    by (rule scan_string_escape)
  also have "\<dots> = Some (rev (c # acc) @ s, rest)" by (rule Cons.IH)
  finally show ?case by simp
qed

declare scan_once.simps [simp del] scan_members.simps [simp del] scan_elements.simps [simp del]

lemma scan_once_dumps_string:
  "scan_once (Suc n) (dumps_string x @ rest) = Some (JStr x, rest)"
  by (subst scan_once.simps(2)) (simp add: dumps_string_def scan_string_escaped)

lemma skip_ws_dumps_string: "skip_ws (dumps_string x @ t) = dumps_string x @ t"
  by (simp add: skip_ws_def dumps_string_def is_json_ws_def)

lemma skip_ws_dumps_items: "xs \<noteq> [] \<Longrightarrow> skip_ws (dumps_items xs @ t) = dumps_items xs @ t"
  by (induction xs rule: dumps_items.induct) (simp_all add: skip_ws_dumps_string)

lemma two_fuel: "Suc 0 < f \<Longrightarrow> \<exists>n. f = Suc (Suc n)"
  by (cases f) (auto simp: gr0_conv_Suc)

lemma scan_elements_last:
  "scan_elements (Suc (Suc n)) (dumps_string x @ CHR '']'' # rest) acc
     = Some (acc @ [JStr x], rest)"
proof -
  have w: "skip_ws (CHR '']'' # rest) = CHR '']'' # rest"
    by (simp add: skip_ws_def is_json_ws_def)
  show ?thesis
    by (subst scan_elements.simps(2)) (simp add: scan_once_dumps_string w)
qed

lemma scan_elements_next:
  assumes "skip_ws (CHR '' '' # t) = t"
  shows "scan_elements (Suc (Suc n)) (dumps_string x @ CHR '','' # CHR '' '' # t) acc
     = scan_elements (Suc n) t (acc @ [JStr x])"
proof -
  have w: "skip_ws (CHR '','' # CHR '' '' # t) = CHR '','' # CHR '' '' # t"
    by (simp add: skip_ws_def is_json_ws_def)
  have c: "(CHR '','' = CHR '']'') = False" by simp
  show ?thesis
    by (subst scan_elements.simps(2)) (simp add: scan_once_dumps_string w assms)
qed


lemma scan_elements_dumps_items:
  "xs \<noteq> [] \<Longrightarrow> length xs < f \<Longrightarrow>
   scan_elements f (dumps_items xs @ CHR '']'' # rest) acc = Some (acc @ map JStr xs, rest)"
proof (induction xs arbitrary: f acc rule: dumps_items.induct)
  case 1
  then show ?case by simp
next
  case (2 x)
  then obtain n where f: "f = Suc (Suc n)" using two_fuel [of f] by auto
  show ?case unfolding f using scan_elements_last [of n x rest acc] by simp
next
  case (3 x y ys)
  then obtain n where f: "f = Suc (Suc n)" using two_fuel [of f] by auto
  have l: "length (y # ys) < Suc n" using "3.prems"(2) f by simp
  let ?t = "dumps_items (y # ys) @ CHR '']'' # rest"
  have k: "skip_ws (CHR '' '' # ?t) = ?t"
    using skip_ws_dumps_items [of "y # ys" "CHR '']'' # rest"]
    by (simp add: skip_ws_def is_json_ws_def)
  have "scan_elements (Suc (Suc n)) (dumps_string x @ CHR '','' # CHR '' '' # ?t) acc
        = scan_elements (Suc n) ?t (acc @ [JStr x])"
    by (rule scan_elements_next [OF k])
  also have "\<dots> = Some ((acc @ [JStr x]) @ map JStr (y # ys), rest)"
    by (rule "3.IH" [OF _ l]) simp
  finally show ?case unfolding f by simp
qed

lemma dumps_items_length: "length xs \<le> length (dumps_items xs)"
  by (induction xs rule: dumps_items.induct) (simp_all add: dumps_string_def)

lemma dumps_items_hd: "xs \<noteq> [] \<Longrightarrow> \<exists>t. dumps_items xs = CHR 0x22 # t"
  by (induction xs rule: dumps_items.induct) (simp_all add: dumps_string_def)

lemma scan_once_array:
  assumes "skip_ws cs = d # ds" "d \<noteq> CHR '']''"
    "scan_elements n (d # ds) [] = Some (vs, r)"
  shows "scan_once (Suc n) (CHR ''['' # cs) = Some (JArr vs, r)"
  by (subst scan_once.simps(2)) (simp add: assms)

lemma json_loads_dumps_strings:
  "json_loads (json_dumps_strings xs) = Some (JArr (map JStr xs))"
proof (cases "xs = []")
  case True
  have "scan_once (Suc (Suc (Suc 0))) ''[]'' = Some (JArr [], [])"
    by (subst scan_once.simps(2)) (simp add: skip_ws_def is_json_ws_def)
  then show ?thesis using True
    by (simp add: json_loads_def json_dumps_strings_def skip_ws_def is_json_ws_def)
next
  case False
  obtain t where t: "dumps_items xs = CHR 0x22 # t" using dumps_items_hd [OF False] by blast
  let ?n = "length (json_dumps_strings xs)"
  have n: "length xs < ?n"
    using dumps_items_length [of xs] by (simp add: json_dumps_strings_def)
  have e: "scan_elements ?n (dumps_items xs @ CHR '']'' # []) [] = Some ([] @ map JStr xs, [])"
    by (rule scan_elements_dumps_items [OF False n])
  have w: "skip_ws (dumps_items xs @ '']'') = CHR 0x22 # (t @ '']'')"
    by (simp add: t skip_ws_def is_json_ws_def)
  have "scan_once (Suc ?n) (CHR ''['' # dumps_items xs @ '']'') = Some (JArr (map JStr xs), [])"
    by (rule scan_once_array [OF w]) (use e t in simp_all)
  then show ?thesis
    by (simp add: json_loads_def json_dumps_strings_def skip_ws_def is_json_ws_def)
qed

lemma map_filter_as_str: "List.map_filter as_str (map JStr xs) = xs"
  by (induction xs) (simp_all add: List.map_filter_simps as_str_def)

lemma filter_unhashable_strings: "filter unhashable (map JStr xs) = []"
  by (induction xs) (simp_all add: unhashable_def)

lemma load_dumped:
  assumes "cache_dir w = Some (CacheText (json_dumps_strings xs))"
  shows "load_processed_files_cache w = w\<lparr>processed_files_cache := remdups xs\<rparr>"
  using assms
  by (simp add: load_processed_files_cache_def json_loads_dumps_strings py_set_of_json_def
        map_filter_as_str filter_unhashable_strings)

lemma save_written:
  assumes "cache_dir w \<noteq> None" "cache_write_error E = None"
  shows "cache_dir (save_processed_files_cache E w)
         = Some (CacheText (json_dumps_strings (processed_files_cache w)))"
  using assms by (auto simp: save_processed_files_cache_def)

subsection \<open>The round trip\<close>

text \<open>
  C5. When the cache directory exists and the write does not fail, saving the cache (the
  text that \<^verbatim>\<open>json.dump\<close> writes for the list of identifiers) and loading it again
  (decoding that text), in this process or in one that finds the same file, yields the
  same set of identifiers; and loading when the cache file (or its directory) does not
  exist yields the empty set and logs nothing.
\<close>

theorem cache_save_load:
  "(cache_dir w \<noteq> None \<and> cache_write_error E = None \<longrightarrow>
      set (processed_files_cache (load_processed_files_cache (save_processed_files_cache E w)))
        = set (processed_files_cache w)
      \<and> (\<forall>w'. cache_dir w' = cache_dir (save_processed_files_cache E w) \<longrightarrow>
             set (processed_files_cache (load_processed_files_cache w')) = set (processed_files_cache w)))
   \<and> (cache_dir w = None \<or> cache_dir w = Some NoCacheFile \<longrightarrow>
        processed_files_cache (load_processed_files_cache w) = []
        \<and> messages (load_processed_files_cache w) = messages w)"
proof (rule conjI; rule impI)
  assume a: "cache_dir w \<noteq> None \<and> cache_write_error E = None"
  have s: "cache_dir (save_processed_files_cache E w)
           = Some (CacheText (json_dumps_strings (processed_files_cache w)))"
    using a by (simp add: save_written)
  have l: "set (processed_files_cache (load_processed_files_cache w')) = set (processed_files_cache w)"
    if "cache_dir w' = cache_dir (save_processed_files_cache E w)" for w'
    using that s by (simp add: load_dumped)
  show "set (processed_files_cache (load_processed_files_cache (save_processed_files_cache E w)))
        = set (processed_files_cache w)
      \<and> (\<forall>w'. cache_dir w' = cache_dir (save_processed_files_cache E w) \<longrightarrow>
             set (processed_files_cache (load_processed_files_cache w')) = set (processed_files_cache w))"
    using l by blast
next
  assume "cache_dir w = None \<or> cache_dir w = Some NoCacheFile"
  then show "processed_files_cache (load_processed_files_cache w) = []
        \<and> messages (load_processed_files_cache w) = messages w"
    by (auto simp: load_processed_files_cache_def)
qed

theorem cache_save_load_witness:
  "cache_dir ex_processed \<noteq> None \<and> cache_write_error ex_env = None
   \<and> set (processed_files_cache (load_processed_files_cache (save_processed_files_cache ex_env
            (ex_processed\<lparr>processed_files_cache := [''b'', ''a'']\<rparr>)))) = {''a'', ''b''}
   \<and> cache_dir ex_pending = Some NoCacheFile
   \<and> processed_files_cache (load_processed_files_cache ex_pending) = []"
proof -
  have 1: "cache_dir (ex_processed\<lparr>processed_files_cache := [''b'', ''a'']\<rparr>) \<noteq> None"
    by (simp add: ex_processed_def)
  have 2: "cache_write_error ex_env = None" by (simp add: ex_env_def)
  have 3: "cache_dir ex_pending = Some NoCacheFile" by (simp add: ex_pending_def)
  show ?thesis
    using cache_save_load [of "ex_processed\<lparr>processed_files_cache := [''b'', ''a'']\<rparr>" ex_env]
      cache_save_load [of ex_pending ex_env] 1 2 3
    by auto
qed


section \<open>Full reset: failure of a step\<close>

lemma clear_lightrag_fail:
  "lightrag_storage w \<noteq> None \<Longrightarrow> rmtree_error E = Some e \<Longrightarrow>
   clear_storage_directories E w = emit PRINT (''Warning: Could not fully clear storage: '' @ str_exc e) w"
  by (simp add: clear_storage_directories_def clear_lightrag_storage_def)

lemma clear_lightrag_frame:
  "clear_lightrag_storage E w = (r, w') \<Longrightarrow> files w' = files w \<and> cache_dir w' = cache_dir w"
  by (auto simp: clear_lightrag_storage_def Let_def split: if_splits option.splits)

lemma clear_cache_fail:
  assumes "cache_dir w = Some st" "st \<noteq> NoCacheFile"
    "unlink_error E (path_join (CACHE_DIR E) ''processed_files.json'') = Some e"
  shows "clear_cache_file E w = (Some e, w)"
  using assms by (cases st) (simp_all add: clear_cache_file_def)

text \<open>
  C8 (as the code has it). \<open>clear_storage_directories\<close> never raises, but its steps run
  under one handler: when removing the knowledge-base directory fails, the call prints one
  warning and changes nothing else; when deleting the cache file fails, no processed file
  is relocated and the cache file stays, and the call ends with the warning.
\<close>

theorem clear_storage_stops_at_failure:
  "(lightrag_storage w \<noteq> None \<and> rmtree_error E = Some e \<longrightarrow>
      clear_storage_directories E w
        = emit PRINT (''Warning: Could not fully clear storage: '' @ str_exc e) w)
   \<and> (cache_dir w = Some st \<and> st \<noteq> NoCacheFile
        \<and> unlink_error E (path_join (CACHE_DIR E) ''processed_files.json'') = Some e \<longrightarrow>
      files (clear_storage_directories E w) = files w
      \<and> cache_dir (clear_storage_directories E w) = cache_dir w
      \<and> (\<exists>e'. last (messages (clear_storage_directories E w))
                 = Msg PRINT (''Warning: Could not fully clear storage: '' @ str_exc e')))"
proof (rule conjI; rule impI)
  assume "lightrag_storage w \<noteq> None \<and> rmtree_error E = Some e"
  then show "clear_storage_directories E w
        = emit PRINT (''Warning: Could not fully clear storage: '' @ str_exc e) w"
    by (simp add: clear_lightrag_fail)
next
  assume a: "cache_dir w = Some st \<and> st \<noteq> NoCacheFile
        \<and> unlink_error E (path_join (CACHE_DIR E) ''processed_files.json'') = Some e"
  obtain r w1 where l: "clear_lightrag_storage E w = (r, w1)" by force
  have f: "files w1 = files w" "cache_dir w1 = cache_dir w"
    using clear_lightrag_frame [OF l] by simp_all
  have c: "clear_cache_file E w1 = (Some e, w1)"
    by (rule clear_cache_fail [of w1 st]) (use a f in simp_all)
  have "clear_storage_directories E w =
      emit PRINT (''Warning: Could not fully clear storage: '' @ str_exc (case r of Some x \<Rightarrow> x | None \<Rightarrow> e)) w1"
    using l c by (cases r) (simp_all add: clear_storage_directories_def)
  then show "files (clear_storage_directories E w) = files w
      \<and> cache_dir (clear_storage_directories E w) = cache_dir w
      \<and> (\<exists>e'. last (messages (clear_storage_directories E w))
                 = Msg PRINT (''Warning: Could not fully clear storage: '' @ str_exc e'))"
    using f by auto
qed

theorem clear_storage_stops_at_failure_witness:
  "lightrag_storage ex_processed \<noteq> None
   \<and> rmtree_error ex_env_rmtree_fails = Some (OSError ''Permission denied'')
   \<and> clear_storage_directories ex_env_rmtree_fails ex_processed
       = emit PRINT ''Warning: Could not fully clear storage: Permission denied'' ex_processed
   \<and> cache_dir ex_processed = Some (CacheText (json_dumps_strings [''pending/ab.pdf'', ''/data/cd.pdf'']))
   \<and> unlink_error ex_env_unlink_fails (path_join (CACHE_DIR ex_env_unlink_fails) ''processed_files.json'')
        = Some (OSError ''Read-only file system'')
   \<and> files (clear_storage_directories ex_env_unlink_fails ex_processed) = files ex_processed"
proof -
  have 3: "cache_dir ex_processed = Some (CacheText (json_dumps_strings [''pending/ab.pdf'', ''/data/cd.pdf'']))"
    by (simp add: ex_processed_def)
  have 4: "unlink_error ex_env_unlink_fails (path_join (CACHE_DIR ex_env_unlink_fails) ''processed_files.json'')
        = Some (OSError ''Read-only file system'')"
    by (simp add: ex_env_unlink_fails_def)
  have 5: "files (clear_storage_directories ex_env_unlink_fails ex_processed) = files ex_processed"
    using clear_storage_stops_at_failure [of ex_processed ex_env_unlink_fails
        "OSError ''Read-only file system''" "CacheText (json_dumps_strings [''pending/ab.pdf'', ''/data/cd.pdf''])"] 3 4
    by simp
  have 1: "lightrag_storage ex_processed \<noteq> None" by (simp add: ex_processed_def)
  have 2: "rmtree_error ex_env_rmtree_fails = Some (OSError ''Permission denied'')"
    by (simp add: ex_env_rmtree_fails_def)
  show ?thesis
    using clear_storage_stops_at_failure [of ex_processed ex_env_rmtree_fails "OSError ''Permission denied''"] 1 2 3 4 5
    by simp
qed

text \<open>
  C8 as stated fails: with a knowledge-base directory that cannot be removed, the cache
  file is not cleared and the processed file is not relocated, although both steps run
  when the first one succeeds.
\<close>

theorem clear_storage_steps_not_independent:
  "path_exists (clear_storage_directories ex_env ex_processed) ''pending/ab.pdf''
   \<and> cache_dir (clear_storage_directories ex_env ex_processed) = Some NoCacheFile
   \<and> \<not> path_exists (clear_storage_directories ex_env_rmtree_fails ex_processed) ''pending/ab.pdf''
   \<and> path_exists (clear_storage_directories ex_env_rmtree_fails ex_processed) ''processed/ab.pdf''
   \<and> cache_dir (clear_storage_directories ex_env_rmtree_fails ex_processed)
        = Some (CacheText (json_dumps_strings [''pending/ab.pdf'', ''/data/cd.pdf'']))"
  by code_simp


section \<open>Rename and copy\<close>

lemma mark_ops:
  "fs_ops (snd (mark_file_as_processed E p w)) = fs_ops w
   \<or> fs_ops (snd (mark_file_as_processed E p w))
       = fs_ops w @ [Rename p (path_join (PROCESSED_DIR E) (path_name p))]"
  by (auto simp: mark_file_as_processed_def rename_def Let_def split: option.splits)

lemma process_document_ops:
  "fs_ops (snd (process_document E p force w)) = fs_ops w
   \<or> fs_ops (snd (process_document E p force w))
       = fs_ops w @ [Rename p (path_join (PROCESSED_DIR E) (path_name p))]"
proof -
  let ?w0 = "emit INFO (''Processing document: '' @ p) w"
  obtain r wa where c: "process_document_complete E p ?w0 = (r, wa)" by force
  have ca: "fs_ops wa = fs_ops w"
    using complete_simps(5)[of E p ?w0] c by simp
  let ?w2 = "wa\<lparr>processed_files_cache := cache_add p (processed_files_cache wa)\<rparr>"
  let ?w3 = "save_processed_files_cache E ?w2"
  have "fs_ops ?w3 = fs_ops w" using ca by simp
  then show ?thesis using c ca mark_ops [of E p ?w3]
    by (auto simp: process_document_def Let_def split: if_splits sum.splits prod.splits option.splits)
qed

lemma remove_from_storage_ops:
  "fs_ops (snd (remove_document_from_storage E d w)) = fs_ops w
   \<or> fs_ops (snd (remove_document_from_storage E d w))
       = fs_ops w @ [Rename (path_join (PROCESSED_DIR E) d) (path_join (PENDING_DIR E) d)]"
  by (auto simp: remove_document_from_storage_def rename_def Let_def split: option.splits)

lemma move_back_loop_ops:
  "\<exists>new. fs_ops (snd (move_back_loop E fs w)) = fs_ops w @ new \<and> (\<forall>op\<in>set new. \<not> is_rename op)"
proof (induction fs arbitrary: w)
  case Nil
  show ?case by simp
next
  case (Cons f fs)
  show ?case
  proof (cases "is_file w f \<and> read_error E f = None
                \<and> write_error E (path_join (PENDING_DIR E) (path_name f)) = None
                \<and> unlink_error E f = None")
    case True
    let ?d = "path_join (PENDING_DIR E) (path_name f)"
    let ?w1 = "w\<lparr>fs_ops := fs_ops w @ [ReadBytes f]\<rparr>"
    let ?w2 = "?w1\<lparr>files := filter (\<lambda>(q, e). q \<noteq> ?d) (files ?w1) @ [(?d, RegularFile (fresh_stat E))],
                   fs_ops := fs_ops ?w1 @ [WriteBytes ?d]\<rparr>"
    let ?w3 = "?w2\<lparr>files := filter (\<lambda>(q, e). q \<noteq> f) (files ?w2), fs_ops := fs_ops ?w2 @ [Unlink f]\<rparr>"
    have e: "move_back_loop E (f # fs) w = move_back_loop E fs ?w3"
      using True by (simp add: read_bytes_def write_bytes_def unlink_def)
    obtain new where n: "fs_ops (snd (move_back_loop E fs ?w3)) = fs_ops ?w3 @ new"
        "\<forall>op\<in>set new. \<not> is_rename op"
      using Cons.IH [of ?w3] by blast
    have "fs_ops (snd (move_back_loop E (f # fs) w))
          = fs_ops w @ ([ReadBytes f, WriteBytes ?d, Unlink f] @ new)"
      using e n(1) by simp
    moreover have "\<forall>op\<in>set ([ReadBytes f, WriteBytes ?d, Unlink f] @ new). \<not> is_rename op"
      using n(2) by (simp add: is_rename_def)
    ultimately show ?thesis by blast
  next
    case False
    then consider (a) "\<not> is_file w f"
      | (b) "is_file w f" "read_error E f \<noteq> None"
      | (c) "is_file w f" "read_error E f = None"
            "write_error E (path_join (PENDING_DIR E) (path_name f)) \<noteq> None"
      | (d) "is_file w f" "read_error E f = None"
            "write_error E (path_join (PENDING_DIR E) (path_name f)) = None" "unlink_error E f \<noteq> None"
      by auto
    then show ?thesis
    proof cases
      case a
      then show ?thesis using Cons.IH [of w] by simp
    next
      case b
      then have "fs_ops (snd (move_back_loop E (f # fs) w)) = fs_ops w @ []"
        by (auto simp: read_bytes_def)
      then show ?thesis by (metis empty_iff list.set(1))
    next
      case c
      then have "fs_ops (snd (move_back_loop E (f # fs) w)) = fs_ops w @ [ReadBytes f]"
        by (auto simp: read_bytes_def write_bytes_def)
      moreover have "\<forall>op\<in>set [ReadBytes f]. \<not> is_rename op" by (simp add: is_rename_def)
      ultimately show ?thesis by blast
    next
      case d
      then have "fs_ops (snd (move_back_loop E (f # fs) w))
          = fs_ops w @ [ReadBytes f, WriteBytes (path_join (PENDING_DIR E) (path_name f))]"
        by (auto simp: read_bytes_def write_bytes_def unlink_def)
      moreover have "\<forall>op\<in>set [ReadBytes f, WriteBytes (path_join (PENDING_DIR E) (path_name f))]. \<not> is_rename op"
        by (simp add: is_rename_def)
      ultimately show ?thesis by blast
    qed
  qed
qed

lemma clear_lightrag_ops:
  "\<exists>new. fs_ops (snd (clear_lightrag_storage E w)) = fs_ops w @ new \<and> (\<forall>op\<in>set new. \<not> is_rename op)"
proof -
  have "fs_ops (snd (clear_lightrag_storage E w)) = fs_ops w @ []
      \<or> fs_ops (snd (clear_lightrag_storage E w)) = fs_ops w @ [Rmtree (LIGHTRAG_STORAGE_DIR E)]
      \<or> fs_ops (snd (clear_lightrag_storage E w))
          = fs_ops w @ [Rmtree (LIGHTRAG_STORAGE_DIR E), Mkdir (LIGHTRAG_STORAGE_DIR E)]"
    by (auto simp: clear_lightrag_storage_def Let_def split: option.splits)
  moreover have "\<forall>op\<in>set []. \<not> is_rename op"
    "\<forall>op\<in>set [Rmtree (LIGHTRAG_STORAGE_DIR E)]. \<not> is_rename op"
    "\<forall>op\<in>set [Rmtree (LIGHTRAG_STORAGE_DIR E), Mkdir (LIGHTRAG_STORAGE_DIR E)]. \<not> is_rename op"
    by (simp_all add: is_rename_def)
  ultimately show ?thesis by blast
qed

lemma clear_cache_ops:
  "\<exists>new. fs_ops (snd (clear_cache_file E w)) = fs_ops w @ new \<and> (\<forall>op\<in>set new. \<not> is_rename op)"
proof -
  have "fs_ops (snd (clear_cache_file E w)) = fs_ops w @ []
      \<or> fs_ops (snd (clear_cache_file E w))
          = fs_ops w @ [Unlink (path_join (CACHE_DIR E) ''processed_files.json'')]"
    by (auto simp: clear_cache_file_def Let_def split: option.splits cache_file_state.splits)
  moreover have "\<forall>op\<in>set []. \<not> is_rename op"
    "\<forall>op\<in>set [Unlink (path_join (CACHE_DIR E) ''processed_files.json'')]. \<not> is_rename op"
    by (simp_all add: is_rename_def)
  ultimately show ?thesis by blast
qed

lemma move_processed_back_ops:
  "\<exists>new. fs_ops (snd (move_processed_back E w)) = fs_ops w @ new \<and> (\<forall>op\<in>set new. \<not> is_rename op)"
proof (cases "path_exists w (PROCESSED_DIR E)")
  case True
  obtain new where n: "fs_ops (snd (move_back_loop E (iterdir w (PROCESSED_DIR E)) w)) = fs_ops w @ new"
      "\<forall>op\<in>set new. \<not> is_rename op"
    using move_back_loop_ops by blast
  have "fs_ops (snd (move_processed_back E w)) = fs_ops (snd (move_back_loop E (iterdir w (PROCESSED_DIR E)) w))"
    using True by (simp add: move_processed_back_def split: prod.splits option.splits)
  then show ?thesis using n by auto
next
  case False
  then have "fs_ops (snd (move_processed_back E w)) = fs_ops w @ []"
    by (simp add: move_processed_back_def)
  then show ?thesis by (metis empty_iff list.set(1))
qed

lemma clear_storage_ops:
  "\<exists>new. fs_ops (clear_storage_directories E w) = fs_ops w @ new \<and> (\<forall>op\<in>set new. \<not> is_rename op)"
proof -
  obtain r1 w1 where s1: "clear_lightrag_storage E w = (r1, w1)" by force
  obtain r2 w2 where s2: "clear_cache_file E w1 = (r2, w2)" by force
  obtain r3 w3 where s3: "move_processed_back E w2 = (r3, w3)" by force
  obtain n1 where n1: "fs_ops w1 = fs_ops w @ n1" "\<forall>op\<in>set n1. \<not> is_rename op"
    using clear_lightrag_ops [of E w] s1 by auto
  obtain n2 where n2: "fs_ops w2 = fs_ops w1 @ n2" "\<forall>op\<in>set n2. \<not> is_rename op"
    using clear_cache_ops [of E w1] s2 by auto
  obtain n3 where n3: "fs_ops w3 = fs_ops w2 @ n3" "\<forall>op\<in>set n3. \<not> is_rename op"
    using move_processed_back_ops [of E w2] s3 by auto
  have "fs_ops (clear_storage_directories E w) = fs_ops w1
      \<or> fs_ops (clear_storage_directories E w) = fs_ops w2
      \<or> fs_ops (clear_storage_directories E w) = fs_ops w3"
    using s1 s2 s3 by (auto simp: clear_storage_directories_def split: option.splits)
  moreover have "fs_ops w2 = fs_ops w @ (n1 @ n2)" "fs_ops w3 = fs_ops w @ (n1 @ n2 @ n3)"
    using n1 n2 n3 by simp_all
  moreover have "\<forall>op\<in>set (n1 @ n2). \<not> is_rename op" "\<forall>op\<in>set (n1 @ n2 @ n3). \<not> is_rename op"
    using n1 n2 n3 by auto
  ultimately show ?thesis using n1 by metis
qed

text \<open>
  C9 (as the code has it). Processing a document and removing one issue at most one
  file-system call on a document file, a \<open>Rename\<close>; the full reset issues no \<open>Rename\<close> at
  all: it reads each processed file, writes a new file in the pending directory and
  unlinks the processed one.
\<close>

theorem moves_by_rename_except_reset:
  "(fs_ops (snd (process_document E p force w)) = fs_ops w
     \<or> fs_ops (snd (process_document E p force w))
         = fs_ops w @ [Rename p (path_join (PROCESSED_DIR E) (path_name p))])
   \<and> (fs_ops (snd (remove_document_from_storage E d w)) = fs_ops w
     \<or> fs_ops (snd (remove_document_from_storage E d w))
         = fs_ops w @ [Rename (path_join (PROCESSED_DIR E) d) (path_join (PENDING_DIR E) d)])
   \<and> (\<exists>new. fs_ops (clear_storage_directories E w) = fs_ops w @ new
             \<and> (\<forall>op\<in>set new. \<not> is_rename op))"
  using process_document_ops remove_from_storage_ops clear_storage_ops by blast

theorem moves_by_rename_except_reset_witness:
  "fs_ops (snd (process_document ex_env ''pending/new.pdf'' False ex_pending))
     = [Rename ''pending/new.pdf'' ''processed/new.pdf'']
   \<and> fs_ops (snd (remove_document_from_storage ex_env ''ab.pdf'' ex_processed))
     = [Rename ''processed/ab.pdf'' ''pending/ab.pdf'']
   \<and> (\<exists>new. fs_ops (clear_storage_directories ex_env ex_processed) = new
             \<and> (\<forall>op\<in>set new. \<not> is_rename op))"
proof -
  have 0: "fs_ops ex_pending = []" "fs_ops ex_processed = []"
    by (simp_all add: ex_pending_def ex_processed_def)
  have 1: "fs_ops (snd (process_document ex_env ''pending/new.pdf'' False ex_pending)) \<noteq> []"
    by code_simp
  have 2: "fs_ops (snd (remove_document_from_storage ex_env ''ab.pdf'' ex_processed)) \<noteq> []"
    by code_simp
  have 3: "path_join (PROCESSED_DIR ex_env) (path_name ''pending/new.pdf'') = ''processed/new.pdf''"
    "path_join (PROCESSED_DIR ex_env) ''ab.pdf'' = ''processed/ab.pdf''"
    "path_join (PENDING_DIR ex_env) ''ab.pdf'' = ''pending/ab.pdf''"
    by code_simp+
  show ?thesis
    using moves_by_rename_except_reset [of ex_env "''pending/new.pdf''" False ex_pending "''ab.pdf''"]
      moves_by_rename_except_reset [of ex_env "''pending/new.pdf''" False ex_processed "''ab.pdf''"]
      0 1 2 3
    by auto
qed

text \<open>
  C9 as stated fails: the full reset changes the membership of both directories by
  \<open>WriteBytes\<close> and \<open>Unlink\<close>.
\<close>

theorem reset_moves_by_copy_and_delete:
  "fs_ops (clear_storage_directories ex_env ex_processed)
     = [Rmtree ''kb'', Mkdir ''kb'', Unlink ''cache/processed_files.json'',
        ReadBytes ''processed/ab.pdf'', WriteBytes ''pending/ab.pdf'', Unlink ''processed/ab.pdf'',
        ReadBytes ''processed/.keep'', WriteBytes ''pending/.keep'', Unlink ''processed/.keep'']
   \<and> \<not> only_by_rename ex_env (fs_ops (clear_storage_directories ex_env ex_processed))
   \<and> only_by_rename ex_env (fs_ops ex_processed)"
  by code_simp


section \<open>Removal of a document\<close>

lemma all_docs_processed_loop_cong:
  "files w = files w' \<Longrightarrow> all_docs_processed_loop w ps acc = all_docs_processed_loop w' ps acc"
  by (induction ps arbitrary: acc) (simp_all add: is_file_def)

lemma get_processed_documents_list_cong:
  assumes "files w = files w'" "processed_files_cache w = processed_files_cache w'"
    "lightrag_storage w = lightrag_storage w'"
  shows "get_processed_documents_list E w = get_processed_documents_list E w'"
proof -
  have 1: "iterdir w = iterdir w'" "path_exists w = path_exists w'"
    using assms(1) by (auto simp: iterdir_def path_exists_def fun_eq_iff)
  have 2: "all_docs_processed_loop w = all_docs_processed_loop w'"
    using all_docs_processed_loop_cong [OF assms(1)] by (intro ext)
  show ?thesis
    unfolding get_processed_documents_list_def 1 2 assms(2,3) ..
qed

lemma get_processed_documents_list_emit [simp]:
  "get_processed_documents_list E (emit l m w) = get_processed_documents_list E w"
  by (rule get_processed_documents_list_cong) simp_all

text \<open>
  C10. When the identifier matches at least one listed name and the selection is resolved
  (a single match, or among several the answer \<^verbatim>\<open>all\<close> or a valid number),
  \<open>remove_document\<close> returns \<open>True\<close> whatever the removals themselves do: for a single
  match whose removal from storage fails, the result is still \<open>True\<close> and the failure shows
  only as the last printed line.
\<close>

theorem remove_document_true_despite_failures:
  assumes "matches = filter (\<lambda>doc. contains (lower doc) (lower doc_identifier))
                       (get_processed_documents_list E w)"
    and "matches \<noteq> []"
    and "length matches > 1 \<longrightarrow>
           (\<exists>line. user_input E = Inr line
              \<and> (lower (strip line) = ''all''
                 \<or> (\<exists>n m. py_int (strip line) = Some n \<and> py_index matches (n - 1) = Some m)))"
  shows "fst (remove_document E doc_identifier w) = True
       \<and> (\<forall>d. matches = [d] \<longrightarrow>
            \<not> fst (remove_document_from_storage E d (emit PRINT (''Removing document: '' @ doc_identifier) w)) \<longrightarrow>
            last (messages (snd (remove_document E doc_identifier w)))
              = Msg PRINT (''Failed to remove: '' @ d))"
proof (cases "length matches > 1")
  case True
  then obtain line where l: "user_input E = Inr line"
      "lower (strip line) = ''all''
       \<or> (\<exists>n m. py_int (strip line) = Some n \<and> py_index matches (n - 1) = Some m)"
    using assms(3) by blast
  have f: "filter (\<lambda>doc. contains (lower doc) (lower doc_identifier))
             (get_processed_documents_list E w) = matches"
    using assms(1) by simp
  have "fst (remove_document E doc_identifier w) = True"
    using assms(2) True l
    by (auto simp: remove_document_def Let_def f)
  moreover have "\<And>d. matches \<noteq> [d]" using True by auto
  ultimately show ?thesis by simp
next
  case False
  then obtain d where d: "matches = [d]"
    using assms(2) by (cases matches) auto
  let ?w1 = "emit PRINT (''Removing document: '' @ doc_identifier) w"
  obtain ok w' where r: "remove_document_from_storage E d ?w1 = (ok, w')" by force
  have f: "filter (\<lambda>doc. contains (lower doc) (lower doc_identifier))
             (get_processed_documents_list E w) = [d]"
    using assms(1) d by simp
  have "remove_document E doc_identifier w
      = (True, emit PRINT ((if ok then ''Removed: '' else ''Failed to remove: '') @ d) w')"
    using r by (simp add: remove_document_def Let_def f)
  then show ?thesis using d r by simp
qed

theorem remove_document_true_despite_failures_witness:
  "filter (\<lambda>doc. contains (lower doc) (lower ''AB'')) (get_processed_documents_list ex_env_rename_fails ex_processed)
     = [''ab.pdf'']
   \<and> \<not> fst (remove_document_from_storage ex_env_rename_fails ''ab.pdf''
              (emit PRINT (''Removing document: '' @ ''AB'') ex_processed))
   \<and> fst (remove_document ex_env_rename_fails ''AB'' ex_processed) = True
   \<and> last (messages (snd (remove_document ex_env_rename_fails ''AB'' ex_processed)))
       = Msg PRINT ''Failed to remove: ab.pdf''"
proof -
  have 1: "filter (\<lambda>doc. contains (lower doc) (lower ''AB''))
             (get_processed_documents_list ex_env_rename_fails ex_processed) = [''ab.pdf'']"
    by code_simp
  have 2: "\<not> fst (remove_document_from_storage ex_env_rename_fails ''ab.pdf''
              (emit PRINT (''Removing document: '' @ ''AB'') ex_processed))"
    by code_simp
  show ?thesis
    using remove_document_true_despite_failures
      [of "[''ab.pdf'']" "''AB''" ex_env_rename_fails ex_processed] 1 2
    by simp
qed


lemma process_document_runs_pipeline:
  assumes "path_exists w p" "force \<or> p \<notin> set (processed_files_cache w)"
  shows "pipeline_calls (snd (process_document E p force w)) = pipeline_calls w @ [p]"
proof -
  let ?w0 = "emit INFO (''Processing document: '' @ p) w"
  obtain r wa where c: "process_document_complete E p ?w0 = (r, wa)" by force
  have ca: "pipeline_calls wa = pipeline_calls w @ [p]"
    using complete_simps(4)[of E p ?w0] c by simp
  let ?w2 = "wa\<lparr>processed_files_cache := cache_add p (processed_files_cache wa)\<rparr>"
  let ?w3 = "save_processed_files_cache E ?w2"
  let ?m = "if path_parent p = PENDING_DIR E then mark_file_as_processed E p ?w3 else (Inr p, ?w3)"
  have "pipeline_calls (snd ?m) = pipeline_calls wa"
    using mark_simps(4)[of E p ?w3] by simp
  then show ?thesis using assms c ca
    by (auto simp: process_document_def Let_def split: if_splits sum.splits prod.splits option.splits)
qed

lemma rename_entry_moved:
  assumes "src \<in> set (map fst fs)" "src \<noteq> dst"
  shows "dst \<in> set (map fst (rename_entry src dst fs))"
    and "src \<notin> set (map fst (rename_entry src dst fs))"
  using assms unfolding rename_entry_def by (force simp: image_iff split: if_splits)+

lemma path_join_inject: "path_join d n = path_join d' n \<longleftrightarrow> d = d'"
  by (simp add: path_join_def)

lemma contains_path_join: "contains (path_join d n) n"
  unfolding contains_def path_join_def
  by (metis append.assoc append_Nil2 sublist_appendI)

text \<open>
  C7. For a resolved name with a file of that name in the processed directory, when the
  rename and the cache write do not fail, removal succeeds, the file is in the pending
  directory and no longer in the processed one, every cache identifier that contains or
  ends with the name is gone, the cache file holds the new cache, and a following
  \<open>process_document\<close> on the pending path is not skipped: it calls the pipeline.
\<close>

theorem removal_makes_reprocessable:
  assumes "doc_name \<in> set (get_processed_documents_list E w)"
    and "path_exists w (path_join (PROCESSED_DIR E) doc_name)"
    and "rename_error E (path_join (PROCESSED_DIR E) doc_name) (path_join (PENDING_DIR E) doc_name) = None"
    and "cache_dir w \<noteq> None" and "cache_write_error E = None"
    and "PENDING_DIR E \<noteq> PROCESSED_DIR E"
    and "remove_document_from_storage E doc_name w = (ok, w')"
  shows "ok
       \<and> path_exists w' (path_join (PENDING_DIR E) doc_name)
       \<and> \<not> path_exists w' (path_join (PROCESSED_DIR E) doc_name)
       \<and> set (processed_files_cache w')
           = {c \<in> set (processed_files_cache w). \<not> (contains c doc_name \<or> endswith c doc_name)}
       \<and> cache_dir w' = Some (CacheText (json_dumps_strings (processed_files_cache w')))
       \<and> path_join (PENDING_DIR E) doc_name \<notin> set (processed_files_cache w')
       \<and> pipeline_calls (snd (process_document E (path_join (PENDING_DIR E) doc_name) False w'))
           = pipeline_calls w' @ [path_join (PENDING_DIR E) doc_name]"
proof -
  let ?src = "path_join (PROCESSED_DIR E) doc_name"
  let ?dst = "path_join (PENDING_DIR E) doc_name"
  let ?keep = "filter (\<lambda>c. \<not> (contains c doc_name \<or> endswith c doc_name)) (processed_files_cache w)"
  let ?w2 = "w\<lparr>processed_files_cache := ?keep, cache_dir := Some (CacheText (json_dumps_strings ?keep))\<rparr>"
  let ?w3 = "?w2\<lparr>files := rename_entry ?src ?dst (files w),
                   fs_ops := fs_ops w @ [Rename ?src ?dst]\<rparr>"
  have ne: "?src \<noteq> ?dst" using assms(6) by (simp add: path_join_inject)
  have k: "filter (\<lambda>item. item \<notin> set (filter (\<lambda>c. contains c doc_name \<or> endswith c doc_name)
                                        (processed_files_cache w))) (processed_files_cache w) = ?keep"
    by (rule filter_cong) auto
  have s: "save_processed_files_cache E (w\<lparr>processed_files_cache := ?keep\<rparr>) = ?w2"
    using assms(4,5) by (auto simp: save_processed_files_cache_def)
  have r: "rename E ?src ?dst ?w2 = (None, ?w3)"
    using assms(2,3) by (simp add: rename_def path_exists_def)
  have e: "remove_document_from_storage E doc_name w
         = (True, emit PRINT (''Moved '' @ doc_name @ '' back to pending directory'') ?w3)"
    unfolding remove_document_from_storage_def Let_def k s r
    using assms(2) by (simp add: path_exists_def)
  then have ok: "ok" and w': "w' = emit PRINT (''Moved '' @ doc_name @ '' back to pending directory'') ?w3"
    using assms(7) by simp_all
  have src: "?src \<in> set (map fst (files w))" using assms(2) by (simp add: path_exists_def)
  have ex: "path_exists w' ?dst" "\<not> path_exists w' ?src"
    using rename_entry_moved [OF src ne] by (simp_all add: w' path_exists_def del: set_map)
  have c: "set (processed_files_cache w')
           = {c \<in> set (processed_files_cache w). \<not> (contains c doc_name \<or> endswith c doc_name)}"
    by (auto simp: w')
  have n: "?dst \<notin> set (processed_files_cache w')"
    using c contains_path_join by simp
  have p: "pipeline_calls (snd (process_document E ?dst False w')) = pipeline_calls w' @ [?dst]"
    using ex(1) n by (intro process_document_runs_pipeline) simp_all
  show ?thesis using ok ex c n p by (simp add: w')
qed

theorem removal_makes_reprocessable_witness:
  "''ab.pdf'' \<in> set (get_processed_documents_list ex_env ex_processed)
   \<and> path_exists ex_processed ''processed/ab.pdf''
   \<and> ''pending/ab.pdf'' \<in> set (processed_files_cache ex_processed)
   \<and> fst (remove_document_from_storage ex_env ''ab.pdf'' ex_processed)
   \<and> path_exists (snd (remove_document_from_storage ex_env ''ab.pdf'' ex_processed)) ''pending/ab.pdf''
   \<and> processed_files_cache (snd (remove_document_from_storage ex_env ''ab.pdf'' ex_processed)) = [''/data/cd.pdf'']
   \<and> pipeline_calls (snd (process_document ex_env ''pending/ab.pdf'' False
         (snd (remove_document_from_storage ex_env ''ab.pdf'' ex_processed)))) = [''pending/ab.pdf'']"
proof -
  have 1: "''ab.pdf'' \<in> set (get_processed_documents_list ex_env ex_processed)" by code_simp
  have 2: "path_exists ex_processed (path_join (PROCESSED_DIR ex_env) ''ab.pdf'')" by code_simp
  have 3: "rename_error ex_env (path_join (PROCESSED_DIR ex_env) ''ab.pdf'')
             (path_join (PENDING_DIR ex_env) ''ab.pdf'') = None"
    by (simp add: ex_env_def)
  have 4: "cache_dir ex_processed \<noteq> None" by (simp add: ex_processed_def)
  have 5: "cache_write_error ex_env = None" by (simp add: ex_env_def)
  have 6: "PENDING_DIR ex_env \<noteq> PROCESSED_DIR ex_env" by (simp add: ex_env_def)
  have 7: "remove_document_from_storage ex_env ''ab.pdf'' ex_processed
         = (fst (remove_document_from_storage ex_env ''ab.pdf'' ex_processed),
            snd (remove_document_from_storage ex_env ''ab.pdf'' ex_processed))"
    by simp
  have 8: "path_join (PENDING_DIR ex_env) ''ab.pdf'' = ''pending/ab.pdf''"
    "path_join (PROCESSED_DIR ex_env) ''ab.pdf'' = ''processed/ab.pdf''"
    by (simp_all add: ex_env_def path_join_def)
  have 9: "processed_files_cache (snd (remove_document_from_storage ex_env ''ab.pdf'' ex_processed)) = [''/data/cd.pdf'']"
    "pipeline_calls (snd (remove_document_from_storage ex_env ''ab.pdf'' ex_processed)) = []"
    "''pending/ab.pdf'' \<in> set (processed_files_cache ex_processed)"
    by code_simp+
  show ?thesis
    using removal_makes_reprocessable [OF 1 2 3 4 5 6 7] 1 2 8 9 by simp
qed


section \<open>The registry listing\<close>

lemma set_add_set [simp]: "set (set_add x xs) = insert x (set xs)"
  by (auto simp: set_add_def)

lemma cache_docs_loop_set:
  "set (cache_docs_loop xs acc) = set acc \<union> set (map basename (filter (\<lambda>c. c \<noteq> []) xs))"
  by (induction xs arbitrary: acc) auto

lemma processed_docs_loop_keys:
  "set (map fst (processed_docs_loop w ps acc))
     = set (map fst acc)
       \<union> set (map path_name (filter (\<lambda>p. is_file w p \<and> \<not> startswith (path_name p) ''.'') ps))"
proof (induction ps arbitrary: acc)
  case Nil
  show ?case by simp
next
  case (Cons p ps)
  show ?case
  proof (cases "is_file w p \<and> \<not> startswith (path_name p) ''.''")
    case True
    then obtain st where st: "map_of (files w) p = Some (RegularFile st)"
      by (auto simp: is_file_def split: option.splits fentry.splits)
    show ?thesis
      using True st Cons.IH by (auto simp: dom_update)
  next
    case False
    then have "processed_docs_loop w (p # ps) acc = processed_docs_loop w ps acc"
      by (auto simp: is_file_def split: option.splits fentry.splits)
    then show ?thesis using False Cons.IH by auto
  qed
qed

lemma kb_docs_loop_set:
  "set (kb_docs_loop ds acc)
     = set acc \<union> set (concat (map (\<lambda>(doc_id, d). case d of FilePath p \<Rightarrow> [basename p] | _ \<Rightarrow> [])
                                 (takeWhile (\<lambda>(doc_id, d). d \<noteq> FilePathNotStr) ds)))"
  by (induction ds acc rule: kb_docs_loop.induct) auto

lemma docs_info_loop_map_of:
  "map_of (docs_info_loop C P K names acc) n
     = (if n \<in> set names \<and> listed_name n
        then Some \<lparr>in_cache = n \<in> set C, in_processed_dir = n \<in> set (map fst P),
                   in_knowledge_base = n \<in> set K,
                   file_size = map_option fst (map_of P n),
                   process_date = map_option snd (map_of P n)\<rparr>
        else map_of acc n)"
  by (induction names arbitrary: acc) (auto simp: update_conv' listed_name_def)

lemma docs_info_loop_distinct:
  "distinct (map fst acc) \<Longrightarrow> distinct (map fst (docs_info_loop C P K names acc))"
  by (induction names arbitrary: acc) (auto simp: distinct_update)

lemma detailed_sources:
  "set (cache_docs_loop (processed_files_cache w) []) = cache_names w"
  "set (map fst (if path_exists w (PROCESSED_DIR E)
                 then processed_docs_loop w (iterdir w (PROCESSED_DIR E)) [] else []))
     = processed_names E w"
proof -
  show "set (cache_docs_loop (processed_files_cache w) []) = cache_names w"
    unfolding cache_docs_loop_set cache_names_def by simp
  show "set (map fst (if path_exists w (PROCESSED_DIR E)
                 then processed_docs_loop w (iterdir w (PROCESSED_DIR E)) [] else []))
     = processed_names E w"
    using processed_docs_loop_keys [of w "iterdir w (PROCESSED_DIR E)" "[]"]
    by (simp add: processed_names_def del: set_map)
qed

lemma takeWhile_all: "list_all P xs \<Longrightarrow> takeWhile P xs = xs"
  by (induction xs) auto

lemma kb_docs_of_names:
  assumes "file_paths_are_strings w"
  shows "set (kb_docs_of (lightrag_storage w)) = kb_names w"
proof (cases "lightrag_storage w")
  case None
  then show ?thesis by (simp add: kb_docs_of_def kb_names_def)
next
  case (Some st)
  show ?thesis
  proof (cases st)
    case (FullDocs ds)
    then have "list_all (\<lambda>(doc_id, d). d \<noteq> FilePathNotStr) ds"
      using assms Some by (simp add: file_paths_are_strings_def)
    then have tw: "takeWhile (\<lambda>(doc_id, d). d \<noteq> FilePathNotStr) ds = ds" by (rule takeWhile_all)
    have "set (kb_docs_loop ds [])
          = set (concat (map (\<lambda>(doc_id, d). case d of FilePath p \<Rightarrow> [basename p] | _ \<Rightarrow> []) ds))"
      using kb_docs_loop_set [of ds "[]"] unfolding tw by simp
    then show ?thesis
      using Some FullDocs by (simp only: kb_docs_of_def kb_names_def option.case full_docs_state.case)
  qed (simp_all add: Some kb_docs_of_def kb_names_def)
qed

lemma detailed_info_map_of:
  assumes "file_paths_are_strings w"
  shows "\<exists>sz dt. map_of (get_detailed_documents_info E w) n
     = (if n \<in> cache_names w \<union> processed_names E w \<union> kb_names w \<and> listed_name n
        then Some \<lparr>in_cache = n \<in> cache_names w, in_processed_dir = n \<in> processed_names E w,
                   in_knowledge_base = n \<in> kb_names w, file_size = sz, process_date = dt\<rparr>
        else None)"
  unfolding get_detailed_documents_info_def Let_def docs_info_loop_map_of
    set_remdups set_append detailed_sources kb_docs_of_names [OF assms]
  by auto

lemma detailed_info_distinct: "distinct (map fst (get_detailed_documents_info E w))"
  unfolding get_detailed_documents_info_def Let_def
  by (rule docs_info_loop_distinct) simp

lemma detailed_info_keys:
  assumes "file_paths_are_strings w"
  shows "set (map fst (get_detailed_documents_info E w))
     = {n \<in> cache_names w \<union> processed_names E w \<union> kb_names w. listed_name n}"
proof -
  have "set (map fst (get_detailed_documents_info E w)) = dom (map_of (get_detailed_documents_info E w))"
    by (simp add: dom_map_of_conv_image_fst)
  also have "\<dots> = {n \<in> cache_names w \<union> processed_names E w \<union> kb_names w. listed_name n}"
  proof -
    have "n \<in> dom (map_of (get_detailed_documents_info E w))
          \<longleftrightarrow> n \<in> cache_names w \<union> processed_names E w \<union> kb_names w \<and> listed_name n" for n
      using detailed_info_map_of [OF assms, of E n] by (auto simp: dom_def split: if_splits)
    then show ?thesis by blast
  qed
  finally show ?thesis .
qed

lemma listed_name_iff: "listed_name n \<longleftrightarrow> length n > 1 \<and> \<not> startswith n ''.''"
  by (auto simp: listed_name_def)

lemma detailed_info_flags:
  assumes "file_paths_are_strings w" "map_of (get_detailed_documents_info E w) n = Some d"
  shows "in_cache d = (n \<in> cache_names w)
       \<and> in_processed_dir d = (n \<in> processed_names E w)
       \<and> in_knowledge_base d = (n \<in> kb_names w)"
proof -
  obtain sz dt where "map_of (get_detailed_documents_info E w) n
     = (if n \<in> cache_names w \<union> processed_names E w \<union> kb_names w \<and> listed_name n
        then Some \<lparr>in_cache = n \<in> cache_names w, in_processed_dir = n \<in> processed_names E w,
                   in_knowledge_base = n \<in> kb_names w, file_size = sz, process_date = dt\<rparr>
        else None)"
    using detailed_info_map_of [OF assms(1), of E n] by blast
  then show ?thesis using assms(2) by (auto split: if_splits)
qed

lemma detailed_info_three_sources:
  assumes s: "file_paths_are_strings w"
    and "cache_names w = {a}" "processed_names E w = {b}" "kb_names w = {c}"
    and "listed_name a" "listed_name b" "listed_name c"
    and "a \<noteq> b" "a \<noteq> c" "b \<noteq> c"
  shows "set (map fst (get_detailed_documents_info E w)) = {a, b, c}"
    and "\<exists>d. map_of (get_detailed_documents_info E w) a = Some d
             \<and> in_cache d \<and> \<not> in_processed_dir d \<and> \<not> in_knowledge_base d"
    and "\<exists>d. map_of (get_detailed_documents_info E w) b = Some d
             \<and> \<not> in_cache d \<and> in_processed_dir d \<and> \<not> in_knowledge_base d"
    and "\<exists>d. map_of (get_detailed_documents_info E w) c = Some d
             \<and> \<not> in_cache d \<and> \<not> in_processed_dir d \<and> in_knowledge_base d"
proof -
  show "set (map fst (get_detailed_documents_info E w)) = {a, b, c}"
    unfolding detailed_info_keys [OF s] assms(2,3,4) using assms(5,6,7) by blast
  have k: "x \<in> set (map fst (get_detailed_documents_info E w))
           \<Longrightarrow> \<exists>d. map_of (get_detailed_documents_info E w) x = Some d" for x
    by (metis map_of_eq_None_iff not_None_eq set_map)
  have m: "x \<in> {a, b, c} \<Longrightarrow> \<exists>d. map_of (get_detailed_documents_info E w) x = Some d" for x
    using k [of x] unfolding detailed_info_keys [OF s] assms(2,3,4) using assms(5,6,7) by blast
  obtain da where da: "map_of (get_detailed_documents_info E w) a = Some da" using m [of a] by blast
  obtain db where db: "map_of (get_detailed_documents_info E w) b = Some db" using m [of b] by blast
  obtain dc where dc: "map_of (get_detailed_documents_info E w) c = Some dc" using m [of c] by blast
  show "\<exists>d. map_of (get_detailed_documents_info E w) a = Some d
             \<and> in_cache d \<and> \<not> in_processed_dir d \<and> \<not> in_knowledge_base d"
    using da detailed_info_flags [OF s da] assms(2-) by simp
  show "\<exists>d. map_of (get_detailed_documents_info E w) b = Some d
             \<and> \<not> in_cache d \<and> in_processed_dir d \<and> \<not> in_knowledge_base d"
    using db detailed_info_flags [OF s db] assms(2-) by simp
  show "\<exists>d. map_of (get_detailed_documents_info E w) c = Some d
             \<and> \<not> in_cache d \<and> \<not> in_processed_dir d \<and> in_knowledge_base d"
    using dc detailed_info_flags [OF s dc] assms(2-) by simp
qed

lemma abc_names:
  "listed_name ''a.pdf''" "listed_name ''b.pdf''" "listed_name ''c.pdf''"
  "''a.pdf'' \<noteq> ''b.pdf''" "''a.pdf'' \<noteq> ''c.pdf''" "''b.pdf'' \<noteq> ''c.pdf''"
  by (simp_all add: listed_name_def startswith_def)

text \<open>
  C3 (as the code has it). The names of a listing are listed once each. When every
  \<^verbatim>\<open>file_path\<close> of the document table is a string, the names of the listing are the names
  of the union of the three sources (the basenames of the cache identifiers, the files of
  the processed directory, every basename derivable from the document table) that are
  longer than one character and do not start with a dot; the three flags of a listed name
  say, each for its own source, whether the name is in it; and with sources \<open>{a.pdf}\<close>,
  \<open>{b.pdf}\<close> and \<open>{c.pdf}\<close> the listing has exactly these three names, each with only
  the flag of its source.
\<close>

theorem listing_is_filtered_union:
  "distinct (map fst (get_detailed_documents_info E w))
   \<and> (file_paths_are_strings w \<longrightarrow>
        set (map fst (get_detailed_documents_info E w))
          = {n \<in> cache_names w \<union> processed_names E w \<union> kb_names w.
               length n > 1 \<and> \<not> startswith n ''.''}
        \<and> (\<forall>n d. map_of (get_detailed_documents_info E w) n = Some d \<longrightarrow>
               in_cache d = (n \<in> cache_names w)
               \<and> in_processed_dir d = (n \<in> processed_names E w)
               \<and> in_knowledge_base d = (n \<in> kb_names w))
        \<and> (cache_names w = {''a.pdf''} \<and> processed_names E w = {''b.pdf''}
             \<and> kb_names w = {''c.pdf''} \<longrightarrow>
             set (map fst (get_detailed_documents_info E w)) = {''a.pdf'', ''b.pdf'', ''c.pdf''}
             \<and> (\<exists>d. map_of (get_detailed_documents_info E w) ''a.pdf'' = Some d
                     \<and> in_cache d \<and> \<not> in_processed_dir d \<and> \<not> in_knowledge_base d)
             \<and> (\<exists>d. map_of (get_detailed_documents_info E w) ''b.pdf'' = Some d
                     \<and> \<not> in_cache d \<and> in_processed_dir d \<and> \<not> in_knowledge_base d)
             \<and> (\<exists>d. map_of (get_detailed_documents_info E w) ''c.pdf'' = Some d
                     \<and> \<not> in_cache d \<and> \<not> in_processed_dir d \<and> in_knowledge_base d)))"
proof (intro conjI impI allI)
  show "distinct (map fst (get_detailed_documents_info E w))"
    by (rule detailed_info_distinct)
next
  assume s: "file_paths_are_strings w"
  show "set (map fst (get_detailed_documents_info E w))
     = {n \<in> cache_names w \<union> processed_names E w \<union> kb_names w. length n > 1 \<and> \<not> startswith n ''.''}"
    unfolding detailed_info_keys [OF s] listed_name_iff ..
next
  fix n d
  assume s: "file_paths_are_strings w"
    and h: "map_of (get_detailed_documents_info E w) n = Some d"
  show "in_cache d = (n \<in> cache_names w)" "in_processed_dir d = (n \<in> processed_names E w)"
    "in_knowledge_base d = (n \<in> kb_names w)"
    using detailed_info_flags [OF s h] by blast+
next
  assume s: "file_paths_are_strings w"
    and a: "cache_names w = {''a.pdf''} \<and> processed_names E w = {''b.pdf''} \<and> kb_names w = {''c.pdf''}"
  note t = detailed_info_three_sources [OF s conjunct1 [OF a] conjunct1 [OF conjunct2 [OF a]]
      conjunct2 [OF conjunct2 [OF a]] abc_names]
  show "set (map fst (get_detailed_documents_info E w)) = {''a.pdf'', ''b.pdf'', ''c.pdf''}"
    by (rule t(1))
  show "\<exists>d. map_of (get_detailed_documents_info E w) ''a.pdf'' = Some d
                \<and> in_cache d \<and> \<not> in_processed_dir d \<and> \<not> in_knowledge_base d"
    by (rule t(2))
  show "\<exists>d. map_of (get_detailed_documents_info E w) ''b.pdf'' = Some d
                \<and> \<not> in_cache d \<and> in_processed_dir d \<and> \<not> in_knowledge_base d"
    by (rule t(3))
  show "\<exists>d. map_of (get_detailed_documents_info E w) ''c.pdf'' = Some d
                \<and> \<not> in_cache d \<and> \<not> in_processed_dir d \<and> in_knowledge_base d"
    by (rule t(4))
qed

theorem listing_is_filtered_union_witness:
  "file_paths_are_strings ex_three_sources
   \<and> cache_names ex_three_sources = {''a.pdf''}
   \<and> processed_names ex_env ex_three_sources = {''b.pdf''}
   \<and> kb_names ex_three_sources = {''c.pdf''}
   \<and> set (map fst (get_detailed_documents_info ex_env ex_three_sources)) = {''a.pdf'', ''b.pdf'', ''c.pdf''}
   \<and> (\<exists>d. map_of (get_detailed_documents_info ex_env ex_three_sources) ''a.pdf'' = Some d
           \<and> in_cache d \<and> \<not> in_processed_dir d \<and> \<not> in_knowledge_base d)
   \<and> (\<exists>d. map_of (get_detailed_documents_info ex_env ex_three_sources) ''c.pdf'' = Some d
           \<and> \<not> in_cache d \<and> \<not> in_processed_dir d \<and> in_knowledge_base d)"
proof -
  have 0: "file_paths_are_strings ex_three_sources" by code_simp
  have 1: "cache_names ex_three_sources = {''a.pdf''}" by code_simp
  have 2: "processed_names ex_env ex_three_sources = {''b.pdf''}" by code_simp
  have 3: "kb_names ex_three_sources = {''c.pdf''}" by code_simp
  note t = listing_is_filtered_union [of ex_env ex_three_sources]
  note u = conjunct2 [OF conjunct2 [OF mp [OF conjunct2 [OF t] 0]]]
  have 4: "cache_names ex_three_sources = {''a.pdf''}
      \<and> processed_names ex_env ex_three_sources = {''b.pdf''}
      \<and> kb_names ex_three_sources = {''c.pdf''}"
    using 1 2 3 by (intro conjI)
  note v = mp [OF u 4]
  show ?thesis
    using 0 1 2 3 conjunct1 [OF v] conjunct1 [OF conjunct2 [OF v]]
      conjunct2 [OF conjunct2 [OF conjunct2 [OF v]]]
    by (intro conjI)
qed

text \<open>
  C3 as stated fails. With cache identifiers whose basenames are exactly \<open>a.pdf\<close>, a
  processed directory holding exactly \<open>b.pdf\<close> and a document table that references exactly
  \<open>c.pdf\<close>, in a record that follows a record whose \<^verbatim>\<open>file_path\<close> is \<^verbatim>\<open>null\<close>, the
  listing has \<open>a.pdf\<close> and \<open>b.pdf\<close> only: \<^verbatim>\<open>os.path.basename\<close> raises on the first
  record and the handler around the loop drops the rest of the table. And read by its
  words alone, the general part also fails on a cache identifier with a one-character
  basename and a knowledge-base path of a hidden file, which are in the union of the
  sources and not in the listing.
\<close>

theorem listing_is_not_the_union:
  "cache_names ex_null_file_path = {''a.pdf''}
   \<and> processed_names ex_env ex_null_file_path = {''b.pdf''}
   \<and> kb_names ex_null_file_path = {''c.pdf''}
   \<and> set (map fst (get_detailed_documents_info ex_env ex_null_file_path)) = {''a.pdf'', ''b.pdf''}
   \<and> set (map fst (get_detailed_documents_info ex_env ex_null_file_path))
       \<noteq> cache_names ex_null_file_path \<union> processed_names ex_env ex_null_file_path
           \<union> kb_names ex_null_file_path
   \<and> cache_names ex_short_names \<union> processed_names ex_env ex_short_names \<union> kb_names ex_short_names
       = {''a'', ''.profile''}
   \<and> set (map fst (get_detailed_documents_info ex_env ex_short_names)) = {}
   \<and> set (map fst (get_detailed_documents_info ex_env ex_short_names))
       \<noteq> cache_names ex_short_names \<union> processed_names ex_env ex_short_names \<union> kb_names ex_short_names"
  by code_simp


text \<open>
  C6. The detailed listing applies only \<open>basename\<close> to a knowledge-base path: the POSIX
  path gives \<open>report.PDF\<close>, the path written with backslashes stays whole, while the list
  of names used for removal, which also splits at backslashes, has \<open>report.pdf\<close> for it.
\<close>

theorem listing_keeps_backslash_path:
  "map fst (get_detailed_documents_info ex_env ex_kb_paths)
     = [''report.PDF'', ''C:'' @ [CHR 0x5C] @ ''x'' @ [CHR 0x5C] @ ''y'' @ [CHR 0x5C] @ ''report.pdf'']
   \<and> get_processed_documents_list ex_env ex_kb_paths = [''report.PDF'', ''report.pdf'']
   \<and> ''report.pdf'' \<notin> set (map fst (get_detailed_documents_info ex_env ex_kb_paths))"
  by code_simp


section \<open>Batch processing\<close>

lemma is_file_exists: "is_file w f \<Longrightarrow> path_exists w f"
  by (force simp: is_file_def path_exists_def image_iff split: option.splits dest!: map_of_SomeD)

lemma step_cached:
  assumes "is_file w f" "f \<in> set (processed_files_cache w)"
  shows "process_document E f False w
         = (False, emit INFO (''File already processed, skipping: '' @ f) w)"
  using assms is_file_exists [OF assms(1)] by (simp add: process_document_def)

lemma step_raises:
  assumes "is_file w f" "f \<notin> set (processed_files_cache w)" "pipeline_raises_on E f"
  shows "\<exists>w'. process_document E f False w = (False, w') \<and> files w' = files w
              \<and> processed_files_cache w' = processed_files_cache w"
proof -
  let ?w0 = "emit INFO (''Processing document: '' @ f) w"
  obtain r kb where p: "pipeline E f (lightrag_storage ?w0) = (r, kb)" by force
  have "r \<noteq> None" using assms(3) p unfolding pipeline_raises_on_def by (metis fst_conv)
  then obtain e where e: "r = Some e" by auto
  have "process_document_complete E f ?w0
        = (Some e, ?w0\<lparr>lightrag_storage := kb, pipeline_calls := pipeline_calls ?w0 @ [f]\<rparr>)"
    using p e by (simp add: process_document_complete_def)
  then show ?thesis
    using assms(2) is_file_exists [OF assms(1)] by (simp add: process_document_def)
qed

lemma step_good:
  assumes "is_file w f" "f \<notin> set (processed_files_cache w)" "pipeline_accepts E f"
    "rename_error E f (path_join (PROCESSED_DIR E) (path_name f)) = None"
    "path_parent f = PENDING_DIR E"
  shows "\<exists>w'. process_document E f False w = (True, w')
              \<and> files w' = rename_entry f (path_join (PROCESSED_DIR E) (path_name f)) (files w)
              \<and> set (processed_files_cache w') = insert f (set (processed_files_cache w))"
proof -
  let ?w0 = "emit INFO (''Processing document: '' @ f) w"
  let ?dst = "path_join (PROCESSED_DIR E) (path_name f)"
  obtain r kb where p: "pipeline E f (lightrag_storage ?w0) = (r, kb)" by force
  have r: "r = None" using assms(3) p unfolding pipeline_accepts_def by (metis fst_conv)
  let ?w1 = "?w0\<lparr>lightrag_storage := kb, pipeline_calls := pipeline_calls ?w0 @ [f]\<rparr>"
  have c: "process_document_complete E f ?w0 = (None, ?w1)"
    using p r by (simp add: process_document_complete_def)
  let ?w2 = "?w1\<lparr>processed_files_cache := cache_add f (processed_files_cache ?w1)\<rparr>"
  let ?w3 = "save_processed_files_cache E ?w2"
  have ex: "path_exists ?w3 f" using is_file_exists [OF assms(1)] by (simp add: path_exists_def)
  let ?w4 = "?w3\<lparr>files := rename_entry f ?dst (files ?w3), fs_ops := fs_ops ?w3 @ [Rename f ?dst]\<rparr>"
  have rn: "rename E f ?dst ?w3 = (None, ?w4)"
    using ex assms(4) by (simp add: rename_def)
  have m: "mark_file_as_processed E f ?w3 = (Inr ?dst, ?w4)"
    using ex assms(5) rn by (simp add: mark_file_as_processed_def Let_def)
  have "process_document E f False w = (True, emit INFO (''Successfully processed: '' @ f) ?w4)"
    unfolding process_document_def Let_def c
    using assms(2,5) is_file_exists [OF assms(1)] m by simp
  then show ?thesis by simp
qed

lemma map_of_rename_entry:
  "g \<noteq> src \<Longrightarrow> g \<noteq> dst \<Longrightarrow> map_of (rename_entry src dst fs) g = map_of fs g"
  unfolding rename_entry_def by (induction fs) auto

lemma basename_no_slash: "CHR ''/'' \<notin> set (basename p)"
  unfolding basename_def using set_takeWhileD by fastforce

lemma path_parent_join:
  assumes "d \<noteq> []" "CHR ''/'' \<notin> set n"
  shows "path_parent (path_join d n) = d"
proof -
  have "dropWhile (\<lambda>c. c \<noteq> CHR ''/'') (rev n @ CHR ''/'' # rev d) = CHR ''/'' # rev d"
    using assms(2) by (subst dropWhile_append2) auto
  then show ?thesis using assms(1) by (simp add: path_parent_def path_join_def)
qed


lemma loop_counts:
  assumes "PROCESSED_DIR E \<noteq> []" "PENDING_DIR E \<noteq> PROCESSED_DIR E" "distinct fs"
    and "\<forall>f\<in>set fs. is_file w f \<and> path_parent f = PENDING_DIR E"
    and "\<forall>f\<in>set fs. f \<notin> set (processed_files_cache w) \<and> \<not> pipeline_raises_on E f \<longrightarrow>
           pipeline_accepts E f
           \<and> rename_error E f (path_join (PROCESSED_DIR E) (path_name f)) = None"
  shows "fst (process_pending_loop E False fs r w)
       = \<lparr>processed = processed r
              + length (filter (\<lambda>f. f \<notin> set (processed_files_cache w) \<and> \<not> pipeline_raises_on E f) fs),
          skipped = skipped r + length (filter (\<lambda>f. f \<in> set (processed_files_cache w)) fs),
          failed = failed r
              + length (filter (\<lambda>f. f \<notin> set (processed_files_cache w) \<and> pipeline_raises_on E f) fs)\<rparr>"
  using assms(3,4,5)
proof (induction fs arbitrary: r w)
  case Nil
  show ?case by simp
next
  case (Cons f fs)
  have f: "is_file w f" "path_parent f = PENDING_DIR E" using Cons.prems(2) by simp_all
  have d: "f \<notin> set fs" "distinct fs" using Cons.prems(1) by simp_all
  let ?dst = "path_join (PROCESSED_DIR E) (path_name f)"
  have pd: "path_parent ?dst = PROCESSED_DIR E"
    using assms(1) basename_no_slash by (simp add: path_parent_join path_name_def)
  obtain ok w' where pw: "process_document E f False w = (ok, w')" by force
  have frame: "(files w' = files w \<or> files w' = rename_entry f ?dst (files w))
        \<and> (set (processed_files_cache w') = set (processed_files_cache w)
            \<or> set (processed_files_cache w') = insert f (set (processed_files_cache w)))
        \<and> ok = (f \<notin> set (processed_files_cache w) \<and> \<not> pipeline_raises_on E f)
        \<and> (f \<in> set (processed_files_cache w') \<longleftrightarrow>
             f \<in> set (processed_files_cache w) \<or> \<not> pipeline_raises_on E f)"
  proof (cases "f \<in> set (processed_files_cache w)")
    case True
    then show ?thesis using step_cached [OF f(1) True] pw by auto
  next
    case nc: False
    show ?thesis
    proof (cases "pipeline_raises_on E f")
      case True
      then show ?thesis using step_raises [OF f(1) nc True] pw nc by auto
    next
      case False
      then have "pipeline_accepts E f" "rename_error E f ?dst = None"
        using Cons.prems(3) nc by simp_all
      then show ?thesis using step_good [OF f(1) nc _ _ f(2)] pw nc False by auto
    qed
  qed
  have rest_files: "\<forall>g\<in>set fs. is_file w' g \<and> path_parent g = PENDING_DIR E"
  proof
    fix g assume g: "g \<in> set fs"
    then have gp: "is_file w g" "path_parent g = PENDING_DIR E" using Cons.prems(2) by simp_all
    have "g \<noteq> f" using g d(1) by auto
    moreover have "g \<noteq> ?dst" using gp(2) pd assms(2) by auto
    ultimately have "map_of (files w') g = map_of (files w) g"
      using frame map_of_rename_entry by metis
    then show "is_file w' g \<and> path_parent g = PENDING_DIR E"
      using gp by (simp add: is_file_def)
  qed
  have mem: "\<forall>g\<in>set fs. g \<in> set (processed_files_cache w') \<longleftrightarrow> g \<in> set (processed_files_cache w)"
    using frame d(1) by auto
  have rest_good: "\<forall>g\<in>set fs. g \<notin> set (processed_files_cache w') \<and> \<not> pipeline_raises_on E g \<longrightarrow>
           pipeline_accepts E g
           \<and> rename_error E g (path_join (PROCESSED_DIR E) (path_name g)) = None"
    using Cons.prems(3) mem by simp
  have flt: "filter (\<lambda>g. g \<notin> set (processed_files_cache w') \<and> \<not> pipeline_raises_on E g) fs
             = filter (\<lambda>g. g \<notin> set (processed_files_cache w) \<and> \<not> pipeline_raises_on E g) fs"
    "filter (\<lambda>g. g \<in> set (processed_files_cache w')) fs
             = filter (\<lambda>g. g \<in> set (processed_files_cache w)) fs"
    "filter (\<lambda>g. g \<notin> set (processed_files_cache w') \<and> pipeline_raises_on E g) fs
             = filter (\<lambda>g. g \<notin> set (processed_files_cache w) \<and> pipeline_raises_on E g) fs"
    using mem by (auto intro: filter_cong)
  let ?r' = "if ok then r\<lparr>processed := processed r + 1\<rparr>
             else if f \<in> set (processed_files_cache w') then r\<lparr>skipped := skipped r + 1\<rparr>
             else r\<lparr>failed := failed r + 1\<rparr>"
  have step: "process_pending_loop E False (f # fs) r w = process_pending_loop E False fs ?r' w'"
    using f(1) pw by simp
  show ?case
    unfolding step Cons.IH [OF d(2) rest_files rest_good] flt
    using frame by auto
qed


lemma three_way_count:
  "length (filter (\<lambda>x. \<not> P x \<and> \<not> Q x) xs)
     = length xs - length (filter P xs) - length (filter (\<lambda>x. \<not> P x \<and> Q x) xs)"
proof -
  have "length (filter (\<lambda>x. \<not> P x \<and> \<not> Q x) xs) + length (filter P xs)
          + length (filter (\<lambda>x. \<not> P x \<and> Q x) xs) = length xs"
    by (induction xs) auto
  then show ?thesis by linarith
qed

lemma iterdir_parent: "f \<in> set (iterdir w d) \<Longrightarrow> path_parent f = d"
  by (simp add: iterdir_def)

lemma loop_outcomes:
  "fst (process_pending_loop E force fs r w)
     = \<lparr>processed = processed r + processed (count_outcomes (batch_outcomes E force fs w)),
        skipped = skipped r + skipped (count_outcomes (batch_outcomes E force fs w)),
        failed = failed r + failed (count_outcomes (batch_outcomes E force fs w))\<rparr>"
proof (induction fs arbitrary: r w)
  case Nil
  show ?case by (simp add: count_outcomes_def)
next
  case (Cons f fs)
  show ?case
  proof (cases "is_file w f")
    case False
    then show ?thesis using Cons.IH by simp
  next
    case True
    obtain ok w' where pw: "process_document E f force w = (ok, w')" by force
    show ?thesis
      using True pw by (simp add: Cons.IH count_outcomes_def)
  qed
qed

lemma pending_outcomes:
  "fst (process_pending_documents E force w)
     = count_outcomes (batch_outcomes E force (iterdir w (PENDING_DIR E)) w)"
proof (cases "iterdir w (PENDING_DIR E) = []")
  case True
  then show ?thesis by (simp add: process_pending_documents_def count_outcomes_def)
next
  case False
  then have "fst (process_pending_documents E force w)
        = fst (process_pending_loop E force (iterdir w (PENDING_DIR E))
                 \<lparr>processed = 0, skipped = 0, failed = 0\<rparr> w)"
    by (simp add: process_pending_documents_def Let_def split: prod.splits)
  then show ?thesis unfolding loop_outcomes by simp
qed

lemma pending_counts:
  assumes "iterdir w (PENDING_DIR E) = fs" "distinct fs"
    and "\<forall>f\<in>set fs. is_file w f"
    and "PROCESSED_DIR E \<noteq> []" "PENDING_DIR E \<noteq> PROCESSED_DIR E"
    and "\<forall>f\<in>set fs. f \<notin> set (processed_files_cache w) \<and> \<not> pipeline_raises_on E f \<longrightarrow>
           pipeline_accepts E f
           \<and> rename_error E f (path_join (PROCESSED_DIR E) (path_name f)) = None"
  shows "fst (process_pending_documents E False w)
       = \<lparr>processed = length (filter (\<lambda>f. f \<notin> set (processed_files_cache w) \<and> \<not> pipeline_raises_on E f) fs),
          skipped = length (filter (\<lambda>f. f \<in> set (processed_files_cache w)) fs),
          failed = length (filter (\<lambda>f. f \<notin> set (processed_files_cache w) \<and> pipeline_raises_on E f) fs)\<rparr>"
proof (cases "fs = []")
  case True
  then show ?thesis using assms(1) by (simp add: process_pending_documents_def)
next
  case False
  have p: "\<forall>f\<in>set fs. is_file w f \<and> path_parent f = PENDING_DIR E"
    using assms(1,3) iterdir_parent by blast
  have "fst (process_pending_documents E False w)
        = fst (process_pending_loop E False fs \<lparr>processed = 0, skipped = 0, failed = 0\<rparr> w)"
    using assms(1) False by (simp add: process_pending_documents_def Let_def split: prod.splits)
  then show ?thesis
    unfolding loop_counts [OF assms(4,5,2) p assms(6)] by simp
qed

lemma pending_three_files:
  assumes "iterdir w (PENDING_DIR E) = fs" "distinct fs"
    and "\<forall>f\<in>set fs. is_file w f"
    and "PROCESSED_DIR E \<noteq> []" "PENDING_DIR E \<noteq> PROCESSED_DIR E"
    and "\<forall>f\<in>set fs. f \<notin> set (processed_files_cache w) \<and> \<not> pipeline_raises_on E f \<longrightarrow>
           pipeline_accepts E f
           \<and> rename_error E f (path_join (PROCESSED_DIR E) (path_name f)) = None"
    and "length fs = 3"
    and "length (filter (\<lambda>f. f \<in> set (processed_files_cache w)) fs) = 1"
    and "length (filter (\<lambda>f. f \<notin> set (processed_files_cache w) \<and> pipeline_raises_on E f) fs) = 1"
  shows "fst (process_pending_documents E False w) = \<lparr>processed = 1, skipped = 1, failed = 1\<rparr>"
proof -
  have g: "length (filter (\<lambda>f. f \<notin> set (processed_files_cache w) \<and> \<not> pipeline_raises_on E f) fs) = 1"
    unfolding three_way_count [of "\<lambda>f. f \<in> set (processed_files_cache w)" "pipeline_raises_on E" fs]
    using assms(7,8,9) by simp
  show ?thesis
    unfolding pending_counts [OF assms(1,2,3,4,5,6)] g assms(8,9) ..
qed

text \<open>
  C4. For every pending directory, every behaviour of the pipeline and of the file system,
  and with or without \<open>force_reprocess\<close>, the counts \<open>process_pending_documents\<close> returns
  are the counts of the outcomes of its calls of \<open>process_document\<close>: every call that
  returned \<open>True\<close> adds one to processed, every call that returned \<open>False\<close> adds one to
  skipped if the file's path is in the cache after the call, and one to failed otherwise.
  When the pending directory holds regular files only, each listed once, and every new file
  the pipeline does not raise on is accepted by it and moved without error, a batch without
  \<open>force_reprocess\<close> counts as processed the new files the pipeline does not raise on, as
  skipped the files already in the cache, and as failed the new files the pipeline raises
  on; so three files, one of them in the cache and one of the two others a file the
  pipeline raises on, give one processed, one skipped and one failed, in whatever order the
  directory lists them.
\<close>

theorem pending_batch_counts:
  "fst (process_pending_documents E force w)
     = count_outcomes (batch_outcomes E force (iterdir w (PENDING_DIR E)) w)
   \<and> (iterdir w (PENDING_DIR E) = fs \<and> distinct fs
      \<and> (\<forall>f\<in>set fs. is_file w f)
      \<and> PROCESSED_DIR E \<noteq> [] \<and> PENDING_DIR E \<noteq> PROCESSED_DIR E
      \<and> (\<forall>f\<in>set fs. f \<notin> set (processed_files_cache w) \<and> \<not> pipeline_raises_on E f \<longrightarrow>
             pipeline_accepts E f
             \<and> rename_error E f (path_join (PROCESSED_DIR E) (path_name f)) = None)
     \<longrightarrow> fst (process_pending_documents E False w)
           = \<lparr>processed = length (filter (\<lambda>f. f \<notin> set (processed_files_cache w)
                                                \<and> \<not> pipeline_raises_on E f) fs),
              skipped = length (filter (\<lambda>f. f \<in> set (processed_files_cache w)) fs),
              failed = length (filter (\<lambda>f. f \<notin> set (processed_files_cache w)
                                             \<and> pipeline_raises_on E f) fs)\<rparr>
         \<and> (length fs = 3
            \<and> length (filter (\<lambda>f. f \<in> set (processed_files_cache w)) fs) = 1
            \<and> length (filter (\<lambda>f. f \<notin> set (processed_files_cache w) \<and> pipeline_raises_on E f) fs) = 1
           \<longrightarrow> fst (process_pending_documents E False w) = \<lparr>processed = 1, skipped = 1, failed = 1\<rparr>))"
proof (rule conjI)
  show "fst (process_pending_documents E force w)
     = count_outcomes (batch_outcomes E force (iterdir w (PENDING_DIR E)) w)"
    by (rule pending_outcomes)
next
  show "iterdir w (PENDING_DIR E) = fs \<and> distinct fs
      \<and> (\<forall>f\<in>set fs. is_file w f)
      \<and> PROCESSED_DIR E \<noteq> [] \<and> PENDING_DIR E \<noteq> PROCESSED_DIR E
      \<and> (\<forall>f\<in>set fs. f \<notin> set (processed_files_cache w) \<and> \<not> pipeline_raises_on E f \<longrightarrow>
             pipeline_accepts E f
             \<and> rename_error E f (path_join (PROCESSED_DIR E) (path_name f)) = None)
     \<longrightarrow> fst (process_pending_documents E False w)
           = \<lparr>processed = length (filter (\<lambda>f. f \<notin> set (processed_files_cache w)
                                                \<and> \<not> pipeline_raises_on E f) fs),
              skipped = length (filter (\<lambda>f. f \<in> set (processed_files_cache w)) fs),
              failed = length (filter (\<lambda>f. f \<notin> set (processed_files_cache w)
                                             \<and> pipeline_raises_on E f) fs)\<rparr>
         \<and> (length fs = 3
            \<and> length (filter (\<lambda>f. f \<in> set (processed_files_cache w)) fs) = 1
            \<and> length (filter (\<lambda>f. f \<notin> set (processed_files_cache w) \<and> pipeline_raises_on E f) fs) = 1
           \<longrightarrow> fst (process_pending_documents E False w) = \<lparr>processed = 1, skipped = 1, failed = 1\<rparr>)"
  proof (rule impI)
    assume h: "iterdir w (PENDING_DIR E) = fs \<and> distinct fs
      \<and> (\<forall>f\<in>set fs. is_file w f)
      \<and> PROCESSED_DIR E \<noteq> [] \<and> PENDING_DIR E \<noteq> PROCESSED_DIR E
      \<and> (\<forall>f\<in>set fs. f \<notin> set (processed_files_cache w) \<and> \<not> pipeline_raises_on E f \<longrightarrow>
             pipeline_accepts E f
             \<and> rename_error E f (path_join (PROCESSED_DIR E) (path_name f)) = None)"
    then have a: "iterdir w (PENDING_DIR E) = fs" "distinct fs" "\<forall>f\<in>set fs. is_file w f"
      "PROCESSED_DIR E \<noteq> []" "PENDING_DIR E \<noteq> PROCESSED_DIR E"
      "\<forall>f\<in>set fs. f \<notin> set (processed_files_cache w) \<and> \<not> pipeline_raises_on E f \<longrightarrow>
             pipeline_accepts E f
             \<and> rename_error E f (path_join (PROCESSED_DIR E) (path_name f)) = None"
      by blast+
    show "fst (process_pending_documents E False w)
           = \<lparr>processed = length (filter (\<lambda>f. f \<notin> set (processed_files_cache w)
                                                \<and> \<not> pipeline_raises_on E f) fs),
              skipped = length (filter (\<lambda>f. f \<in> set (processed_files_cache w)) fs),
              failed = length (filter (\<lambda>f. f \<notin> set (processed_files_cache w)
                                             \<and> pipeline_raises_on E f) fs)\<rparr>
         \<and> (length fs = 3
            \<and> length (filter (\<lambda>f. f \<in> set (processed_files_cache w)) fs) = 1
            \<and> length (filter (\<lambda>f. f \<notin> set (processed_files_cache w) \<and> pipeline_raises_on E f) fs) = 1
           \<longrightarrow> fst (process_pending_documents E False w) = \<lparr>processed = 1, skipped = 1, failed = 1\<rparr>)"
    proof (rule conjI)
      show "fst (process_pending_documents E False w)
           = \<lparr>processed = length (filter (\<lambda>f. f \<notin> set (processed_files_cache w)
                                                \<and> \<not> pipeline_raises_on E f) fs),
              skipped = length (filter (\<lambda>f. f \<in> set (processed_files_cache w)) fs),
              failed = length (filter (\<lambda>f. f \<notin> set (processed_files_cache w)
                                             \<and> pipeline_raises_on E f) fs)\<rparr>"
        by (rule pending_counts [OF a])
    next
      show "length fs = 3
            \<and> length (filter (\<lambda>f. f \<in> set (processed_files_cache w)) fs) = 1
            \<and> length (filter (\<lambda>f. f \<notin> set (processed_files_cache w) \<and> pipeline_raises_on E f) fs) = 1
           \<longrightarrow> fst (process_pending_documents E False w) = \<lparr>processed = 1, skipped = 1, failed = 1\<rparr>"
        using pending_three_files [OF a] by blast
    qed
  qed
qed

theorem pending_batch_counts_witness:
  "iterdir ex_pending (PENDING_DIR ex_env) = [''pending/old.pdf'', ''pending/new.pdf'', ''pending/bad.pdf'']
   \<and> ''pending/old.pdf'' \<in> set (processed_files_cache ex_pending)
   \<and> pipeline_raises_on ex_env ''pending/bad.pdf''
   \<and> pipeline_accepts ex_env ''pending/new.pdf''
   \<and> fst (process_pending_documents ex_env False ex_pending) = \<lparr>processed = 1, skipped = 1, failed = 1\<rparr>
   \<and> count_outcomes (batch_outcomes ex_env False (iterdir ex_pending (PENDING_DIR ex_env)) ex_pending)
       = \<lparr>processed = 1, skipped = 1, failed = 1\<rparr>
   \<and> processed_files_cache ex_two_cached = [''pending/old.pdf'', ''pending/new.pdf'']
   \<and> fst (process_pending_documents ex_env False ex_two_cached) = \<lparr>processed = 0, skipped = 2, failed = 1\<rparr>
   \<and> batch_outcomes ex_env_rename_fails False
         (iterdir ex_pending (PENDING_DIR ex_env_rename_fails)) ex_pending
       = [(False, True), (False, True), (False, False)]
   \<and> fst (process_pending_documents ex_env_rename_fails False ex_pending)
       = \<lparr>processed = 0, skipped = 2, failed = 1\<rparr>"
proof -
  let ?fs = "[''pending/old.pdf'', ''pending/new.pdf'', ''pending/bad.pdf'']"
  have 1: "iterdir ex_pending (PENDING_DIR ex_env) = ?fs" by code_simp
  have 2: "length ?fs = 3" "distinct ?fs" by simp_all
  have 3: "\<forall>f\<in>set ?fs. is_file ex_pending f" by code_simp
  have 4: "PROCESSED_DIR ex_env \<noteq> []" "PENDING_DIR ex_env \<noteq> PROCESSED_DIR ex_env"
    by (simp_all add: ex_env_def)
  have c: "processed_files_cache ex_pending = [''pending/old.pdf'']" by (simp add: ex_pending_def)
  have r: "pipeline_raises_on ex_env ''pending/bad.pdf''" "\<not> pipeline_raises_on ex_env ''pending/new.pdf''"
    "\<not> pipeline_raises_on ex_env ''pending/old.pdf''"
    "pipeline_accepts ex_env ''pending/new.pdf''"
    by (simp_all add: pipeline_raises_on_def pipeline_accepts_def ex_env_def)
  have 5: "length (filter (\<lambda>f. f \<in> set (processed_files_cache ex_pending)) ?fs) = 1"
    by (simp add: c)
  have 6: "length (filter (\<lambda>f. f \<notin> set (processed_files_cache ex_pending) \<and> pipeline_raises_on ex_env f) ?fs) = 1"
    using r by (simp add: c)
  have 7: "\<forall>f\<in>set ?fs. f \<notin> set (processed_files_cache ex_pending) \<and> \<not> pipeline_raises_on ex_env f \<longrightarrow>
             pipeline_accepts ex_env f
             \<and> rename_error ex_env f (path_join (PROCESSED_DIR ex_env) (path_name f)) = None"
    using r by (simp add: c ex_env_def)
  note t = pending_batch_counts [of ex_env False ex_pending ?fs]
  have h: "iterdir ex_pending (PENDING_DIR ex_env) = ?fs \<and> distinct ?fs
      \<and> (\<forall>f\<in>set ?fs. is_file ex_pending f)
      \<and> PROCESSED_DIR ex_env \<noteq> [] \<and> PENDING_DIR ex_env \<noteq> PROCESSED_DIR ex_env
      \<and> (\<forall>f\<in>set ?fs. f \<notin> set (processed_files_cache ex_pending) \<and> \<not> pipeline_raises_on ex_env f \<longrightarrow>
             pipeline_accepts ex_env f
             \<and> rename_error ex_env f (path_join (PROCESSED_DIR ex_env) (path_name f)) = None)"
    using 1 2(2) 3 4 7 by (intro conjI)
  note u = mp [OF conjunct2 [OF t] h]
  have k: "length ?fs = 3
      \<and> length (filter (\<lambda>f. f \<in> set (processed_files_cache ex_pending)) ?fs) = 1
      \<and> length (filter (\<lambda>f. f \<notin> set (processed_files_cache ex_pending) \<and> pipeline_raises_on ex_env f) ?fs) = 1"
    using 2(1) 5 6 by (intro conjI)
  have a: "fst (process_pending_documents ex_env False ex_pending) = \<lparr>processed = 1, skipped = 1, failed = 1\<rparr>"
    by (rule mp [OF conjunct2 [OF u] k])
  have b: "count_outcomes (batch_outcomes ex_env False (iterdir ex_pending (PENDING_DIR ex_env)) ex_pending)
       = \<lparr>processed = 1, skipped = 1, failed = 1\<rparr>"
    using conjunct1 [OF t] a by simp
  have c2: "processed_files_cache ex_two_cached = [''pending/old.pdf'', ''pending/new.pdf'']"
    by (simp add: ex_two_cached_def)
  have i1: "iterdir ex_two_cached (PENDING_DIR ex_env) = ?fs" by code_simp
  have i3: "\<forall>f\<in>set ?fs. is_file ex_two_cached f" by code_simp
  have i7: "\<forall>f\<in>set ?fs. f \<notin> set (processed_files_cache ex_two_cached) \<and> \<not> pipeline_raises_on ex_env f \<longrightarrow>
             pipeline_accepts ex_env f
             \<and> rename_error ex_env f (path_join (PROCESSED_DIR ex_env) (path_name f)) = None"
    using r by (simp add: c2 ex_env_def)
  have h': "iterdir ex_two_cached (PENDING_DIR ex_env) = ?fs \<and> distinct ?fs
      \<and> (\<forall>f\<in>set ?fs. is_file ex_two_cached f)
      \<and> PROCESSED_DIR ex_env \<noteq> [] \<and> PENDING_DIR ex_env \<noteq> PROCESSED_DIR ex_env
      \<and> (\<forall>f\<in>set ?fs. f \<notin> set (processed_files_cache ex_two_cached) \<and> \<not> pipeline_raises_on ex_env f \<longrightarrow>
             pipeline_accepts ex_env f
             \<and> rename_error ex_env f (path_join (PROCESSED_DIR ex_env) (path_name f)) = None)"
    using i1 2(2) i3 4 i7 by (intro conjI)
  note u' = conjunct1 [OF mp [OF conjunct2 [OF pending_batch_counts [of ex_env False ex_two_cached ?fs]] h']]
  have d: "fst (process_pending_documents ex_env False ex_two_cached) = \<lparr>processed = 0, skipped = 2, failed = 1\<rparr>"
    using u' r by (simp add: c2)
  have o: "batch_outcomes ex_env_rename_fails False
             (iterdir ex_pending (PENDING_DIR ex_env_rename_fails)) ex_pending
           = [(False, True), (False, True), (False, False)]"
    by code_simp
  have e: "fst (process_pending_documents ex_env_rename_fails False ex_pending)
           = \<lparr>processed = 0, skipped = 2, failed = 1\<rparr>"
    using conjunct1 [OF pending_batch_counts [of ex_env_rename_fails False ex_pending "[]"]]
    unfolding o by (simp add: count_outcomes_def)
  have m: "iterdir ex_pending (PENDING_DIR ex_env) = ?fs
   \<and> ''pending/old.pdf'' \<in> set (processed_files_cache ex_pending)
   \<and> pipeline_raises_on ex_env ''pending/bad.pdf''
   \<and> pipeline_accepts ex_env ''pending/new.pdf''
   \<and> fst (process_pending_documents ex_env False ex_pending) = \<lparr>processed = 1, skipped = 1, failed = 1\<rparr>
   \<and> count_outcomes (batch_outcomes ex_env False (iterdir ex_pending (PENDING_DIR ex_env)) ex_pending)
       = \<lparr>processed = 1, skipped = 1, failed = 1\<rparr>
   \<and> processed_files_cache ex_two_cached = [''pending/old.pdf'', ''pending/new.pdf'']
   \<and> fst (process_pending_documents ex_env False ex_two_cached) = \<lparr>processed = 0, skipped = 2, failed = 1\<rparr>"
    using 1 r c a b c2 d by simp
  show ?thesis using m o e by blast
qed


section \<open>The normalizer always returns a record\<close>






















text \<open>
  When the call of the language model itself raises, which is not an input string, the
  handler raises \<^verbatim>\<open>UnboundLocalError\<close> to the caller; when it returns \<^verbatim>\<open>None\<close>, the
  fixed record is returned.
\<close>

lemma robust_llm_func_without_text:
  "fst (robust_llm_func (LLMRaises e))
     = Inl (UnboundLocalError (''cannot access local variable '' @ quoted ''json''
                               @ '' where it is not associated with a value''))"
  "fst (robust_llm_func LLMNone)
     = Inr (JObj [(''description'', JStr ''Content processed but no analysis available''),
                  (''entities'', JArr []),
                  (''content'', JStr ''Unable to process content'')])"
  by (simp_all add: robust_llm_func_def)







end
